theory Spec2Isabelle
  imports Complex_Main "HOL-Library.AList"
begin

section \<open>JavaScript values\<close>

text \<open>
  The functions of this repository take \<open>any\<close>. The values modelled here are the ones form
  data is made of: \<open>undefined\<close>, \<open>null\<close>, booleans, numbers, strings, arrays and objects.
  An object is the list of its own enumerable properties in enumeration order; what it
  inherits, it inherits from \<open>Object.prototype\<close>.

  A number is a double: \<open>NaN\<close>, the two infinities, or a finite value, which is kept as the
  rational it denotes (signed zero is not distinguished).
\<close>

datatype jsnum = NaN | PosInfinity | NegInfinity | Fin rat

datatype jsvalue =
    VUndefined
  | VNull
  | VBool bool
  | VNum jsnum
  | VStr string
  | VArr "jsvalue list"
  | VObj "(string \<times> jsvalue) list"

text \<open>\<open>value == null\<close> holds of \<open>null\<close> and of \<open>undefined\<close>.\<close>

fun nullish :: "jsvalue \<Rightarrow> bool" where
  "nullish VUndefined = True"
| "nullish VNull = True"
| "nullish _ = False"

text \<open>\<open>Array.isArray\<close>.\<close>

fun Array_isArray :: "jsvalue \<Rightarrow> bool" where
  "Array_isArray (VArr _) = True"
| "Array_isArray _ = False"

text \<open>
  A call of this repository returns a value or throws. The only exception the functions
  modelled here can meet is the \<open>TypeError\<close> of the language.
\<close>

datatype js_error = JS_TypeError

text \<open>The results of a list of calls made in order: the first exception ends them.\<close>

fun collect :: "('e + 'a) list \<Rightarrow> 'e + 'a list" where
  "collect [] = Inr []"
| "collect (x # xs) =
     (case x of
        Inl e \<Rightarrow> Inl e
      | Inr y \<Rightarrow> (case collect xs of Inl e \<Rightarrow> Inl e | Inr ys \<Rightarrow> Inr (y # ys)))"

text \<open>
  What belongs to the JavaScript runtime is a parameter of the model: the conversions
  between strings and numbers (\<open>StringToNumber\<close> and \<open>Number::toString\<close> of the
  language), and what reading a property of one of the members of \<open>Object.prototype\<close>
  gives. Of such a read the code only uses whether the value is truthy, or falsy, or
  whether the read throws, as the poisoned \<open>caller\<close> and \<open>arguments\<close> of a built-in
  function do. No built-in has a property \<open>__type\<close>.
\<close>

datatype prop_read = Truthy | Falsy | Throws

record js_runtime =
  str_to_num :: "string \<Rightarrow> jsnum"
  num_to_str :: "jsnum \<Rightarrow> string"
  member_prop :: "string \<Rightarrow> string \<Rightarrow> prop_read"

fun intercalate :: "string \<Rightarrow> string list \<Rightarrow> string" where
  "intercalate sep [] = []"
| "intercalate sep [x] = x"
| "intercalate sep (x # y # ys) = x @ sep @ intercalate sep (y # ys)"

text \<open>
  \<open>String(value)\<close>. An array joins the strings of its elements with commas, \<open>null\<close> and
  \<open>undefined\<close> elements giving the empty string. An object is converted by the
  \<open>toString\<close> it finds: the inherited one gives \<open>[object Object]\<close>; an own property of
  that name hides it, and since no value modelled here is callable, neither it nor
  \<open>valueOf\<close> (the inherited one returns the object itself) gives a primitive, and the
  conversion throws a \<open>TypeError\<close>.
\<close>

fun js_String :: "js_runtime \<Rightarrow> jsvalue \<Rightarrow> js_error + string" where
  "js_String rt VUndefined = Inr ''undefined''"
| "js_String rt VNull = Inr ''null''"
| "js_String rt (VBool b) = Inr (if b then ''true'' else ''false'')"
| "js_String rt (VNum n) = Inr (num_to_str rt n)"
| "js_String rt (VStr s) = Inr s"
| "js_String rt (VArr items) =
     (case collect (map (\<lambda>item. if nullish item then Inr [] else js_String rt item) items) of
        Inl e \<Rightarrow> Inl e
      | Inr strings \<Rightarrow> Inr (intercalate '','' strings))"
| "js_String rt (VObj kvs) =
     (if ''toString'' \<in> set (map fst kvs) then Inl JS_TypeError else Inr ''[object Object]'')"

text \<open>\<open>Number(value)\<close>: arrays and objects are converted through their string, and throw
  when that conversion throws.\<close>

fun js_Number :: "js_runtime \<Rightarrow> jsvalue \<Rightarrow> js_error + jsnum" where
  "js_Number rt VUndefined = Inr NaN"
| "js_Number rt VNull = Inr (Fin 0)"
| "js_Number rt (VBool b) = Inr (if b then Fin 1 else Fin 0)"
| "js_Number rt (VNum n) = Inr n"
| "js_Number rt (VStr s) = Inr (str_to_num rt s)"
| "js_Number rt (VArr items) =
     (case js_String rt (VArr items) of Inl e \<Rightarrow> Inl e | Inr s \<Rightarrow> Inr (str_to_num rt s))"
| "js_Number rt (VObj kvs) =
     (case js_String rt (VObj kvs) of Inl e \<Rightarrow> Inl e | Inr s \<Rightarrow> Inr (str_to_num rt s))"

text \<open>\<open>Boolean(value)\<close>: truthiness.\<close>

fun js_Boolean :: "jsvalue \<Rightarrow> bool" where
  "js_Boolean VUndefined = False"
| "js_Boolean VNull = False"
| "js_Boolean (VBool b) = b"
| "js_Boolean (VNum n) = (n \<noteq> NaN \<and> n \<noteq> Fin 0)"
| "js_Boolean (VStr s) = (s \<noteq> [])"
| "js_Boolean (VArr _) = True"
| "js_Boolean (VObj _) = True"

text \<open>\<open>Math.round\<close>: the nearest integer, a tie going up.\<close>

fun Math_round :: "jsnum \<Rightarrow> jsnum" where
  "Math_round (Fin q) = Fin (of_int \<lfloor>q + 1 / 2\<rfloor>)"
| "Math_round n = n"

text \<open>\<open>Number.isInteger\<close>: false of every value that is not a finite integral number.\<close>

fun Number_isInteger :: "jsvalue \<Rightarrow> bool" where
  "Number_isInteger (VNum (Fin q)) = (of_int \<lfloor>q\<rfloor> = q)"
| "Number_isInteger _ = False"

fun typeof_number :: "jsvalue \<Rightarrow> bool" where
  "typeof_number (VNum _) = True"
| "typeof_number _ = False"

fun typeof_string :: "jsvalue \<Rightarrow> bool" where
  "typeof_string (VStr _) = True"
| "typeof_string _ = False"

fun typeof_boolean :: "jsvalue \<Rightarrow> bool" where
  "typeof_boolean (VBool _) = True"
| "typeof_boolean _ = False"

text \<open>
  The keys a \<open>for (key in value)\<close> loop visits. A number and a boolean have none. A
  string has its indices \<open>0\<close>, \<open>1\<close>, ..., which are not GraphQL names, so that no field or
  argument of a schema is keyed by one; the loops below only act on keys the schema
  knows, and the model leaves the indices out.
\<close>

fun own_keys :: "jsvalue \<Rightarrow> string list" where
  "own_keys (VObj kvs) = map fst kvs"
| "own_keys _ = []"

text \<open>
  \<open>value[key]\<close>, read on values that passed \<open>isPlainObject\<close>. The fixer reads a value
  only at the keys its \<open>for (key in value)\<close> loop visits, which are own properties. The
  validator reads a value at the names of the schema's fields: where the value has no
  own property of the name the model gives \<open>undefined\<close>, as the code does for every name
  but those of the members a value inherits from its prototype (\<open>toString\<close>,
  \<open>constructor\<close>, ...), which are functions, outside the values modelled.
\<close>

fun get_prop :: "jsvalue \<Rightarrow> string \<Rightarrow> jsvalue" where
  "get_prop (VObj kvs) key = (case map_of kvs key of Some v \<Rightarrow> v | None \<Rightarrow> VUndefined)"
| "get_prop (VStr s) key =
     (if key = ''length'' then VNum (Fin (of_nat (length s))) else VUndefined)"
| "get_prop _ key = VUndefined"

section \<open>The schema\<close>

text \<open>
  gqless's \<open>Type\<close> is \<open>{ __args?: Record<string, string>; __type: string }\<close> and its
  \<open>Schema\<close> maps a type name to the record of that type's fields. The generated schema
  is made of object literals; the model holds the own properties of each.
\<close>

record gtype =
  dunder_args :: "(string \<times> string) list option"
  dunder_type :: string

type_synonym type_object = "(string \<times> gtype) list"

type_synonym schema = "string \<Rightarrow> type_object option"

record schema_type_info =
  pureType :: string
  isNullable :: bool
  isArray :: bool
  nullableItems :: bool

definition endsWith :: "string \<Rightarrow> char \<Rightarrow> bool" where
  "endsWith s c = (s \<noteq> [] \<and> last s = c)"

definition startsWith :: "string \<Rightarrow> char \<Rightarrow> bool" where
  "startsWith s c = (s \<noteq> [] \<and> hd s = c)"

text \<open>
  Modelled from the spec: \<open>parseSchemaType\<close> is imported from the gqless library and is
  not part of this repository. A trailing \<open>!\<close> marks the value non-nullable and is
  stripped; a bracketed type is an array, whose brackets are stripped; a \<open>!\<close> that then ends
  the item type marks the items non-nullable and is stripped. Its first step is a string
  method of its argument, so that on what is not a string it throws a \<open>TypeError\<close>.
\<close>

definition parseSchemaType :: "string \<Rightarrow> schema_type_info" where
  "parseSchemaType typeName =
     (let nonNull = endsWith typeName CHR ''!'';
          t1 = (if nonNull then butlast typeName else typeName)
      in if startsWith t1 CHR ''[''
         then (let t2 = butlast (tl t1);
                   nonNullItems = endsWith t2 CHR ''!'';
                   t3 = (if nonNullItems then butlast t2 else t2)
               in \<lparr>pureType = t3, isNullable = \<not> nonNull, isArray = True,
                   nullableItems = \<not> nonNullItems\<rparr>)
         else \<lparr>pureType = t1, isNullable = \<not> nonNull, isArray = False,
               nullableItems = True\<rparr>)"

subsection \<open>Reading a property of a record of the schema\<close>

text \<open>
  The code reads the records of the schema with \<open>schema[pureType]\<close>, \<open>typeObject[key]\<close>
  and \<open>args?.[key]\<close>. Such a read finds an own property of the name, and otherwise what
  the record inherits from \<open>Object.prototype\<close>: one of its members (a function; under
  \<open>__proto__\<close>, \<open>Object.prototype\<close> itself), or nothing. No type, field or argument of a
  GraphQL schema is named \<open>__proto__\<close> (a name that begins with two underscores is
  reserved), so that name always reads the inherited accessor.
\<close>

definition object_prototype_members :: "string list" where
  "object_prototype_members =
     [''constructor'', ''__defineGetter__'', ''__defineSetter__'', ''hasOwnProperty'',
      ''__lookupGetter__'', ''__lookupSetter__'', ''isPrototypeOf'', ''propertyIsEnumerable'',
      ''toString'', ''valueOf'', ''__proto__'', ''toLocaleString'']"

datatype 'a property = Own 'a | Inherited | Absent

definition read_property :: "(string \<Rightarrow> 'a option) \<Rightarrow> string \<Rightarrow> 'a property" where
  "read_property own key =
     (if key = ''__proto__'' then Inherited
      else (case own key of
              Some x \<Rightarrow> Own x
            | None \<Rightarrow> if key \<in> set object_prototype_members then Inherited else Absent))"

text \<open>
  What \<open>schema[pureType]\<close> can be when it is not \<open>undefined\<close>: the record of a type, or
  the member of \<open>Object.prototype\<close> of that name.
\<close>

datatype type_object_ref = Literal type_object | Builtin string

definition read_schema :: "schema \<Rightarrow> string \<Rightarrow> type_object_ref option" where
  "read_schema schema name =
     (case read_property schema name of
        Own typeObject \<Rightarrow> Some (Literal typeObject)
      | Inherited \<Rightarrow> Some (Builtin name)
      | Absent \<Rightarrow> None)"

text \<open>
  What is handed to \<open>fixValue\<close> as \<open>typeName\<close>: a string, or something that is not one
  (a function, or the \<open>undefined\<close> that \<open>type.__type\<close> is when \<open>type\<close> is a built-in).
\<close>

datatype type_ref = TypeName string | NotAString

text \<open>
  One pass of a \<open>for (key in value)\<close> loop of the fixer reads the expected type of the
  key and tests it: the key is used with that type, or skipped because the read was
  falsy, or the read throws.
\<close>

datatype field_read = Use type_ref | Skip | ReadThrows

text \<open>\<open>const type = typeObject[key]\<close>, \<open>if (type)\<close> and \<open>type.__type\<close>.\<close>

fun read_field :: "js_runtime \<Rightarrow> type_object_ref \<Rightarrow> string \<Rightarrow> field_read" where
  "read_field rt (Literal typeObject) key =
     (case read_property (map_of typeObject) key of
        Own ty \<Rightarrow> Use (TypeName (dunder_type ty))
      | Inherited \<Rightarrow> Use NotAString
      | Absent \<Rightarrow> Skip)"
| "read_field rt (Builtin member) key =
     (case member_prop rt member key of
        Truthy \<Rightarrow> Use NotAString
      | Falsy \<Rightarrow> Skip
      | Throws \<Rightarrow> ReadThrows)"

text \<open>
  \<open>const argTypeName = args?.[key]\<close> and \<open>if (argTypeName)\<close>: \<open>undefined\<close> when the
  operation has no \<open>__args\<close>; the empty type name is falsy.
\<close>

definition read_arg :: "gtype \<Rightarrow> string \<Rightarrow> field_read" where
  "read_arg operationType key =
     (case dunder_args operationType of
        None \<Rightarrow> Skip
      | Some args \<Rightarrow>
          (case read_property (map_of args) key of
             Own argTypeName \<Rightarrow> if argTypeName = [] then Skip else Use (TypeName argTypeName)
           | Inherited \<Rightarrow> Use NotAString
           | Absent \<Rightarrow> Skip))"

section \<open>fixInputData.ts\<close>

definition isPlainObject :: "jsvalue \<Rightarrow> bool" where
  "isPlainObject v = (\<not> nullish v \<and> \<not> Array_isArray v)"

definition scalars :: "string list" where
  "scalars = [''Int'', ''Float'', ''String'', ''Boolean'', ''ID'']"

definition isScalar :: "string \<Rightarrow> bool" where
  "isScalar typeName = (typeName \<in> set scalars)"

definition fixScalar :: "js_runtime \<Rightarrow> jsvalue \<Rightarrow> string \<Rightarrow> js_error + jsvalue" where
  "fixScalar rt v typeName =
     (if typeName = ''Int'' then
        (if typeof_number v \<and> Number_isInteger v then Inr v
         else (case js_Number rt v of
                 Inl e \<Rightarrow> Inl e
               | Inr n \<Rightarrow> Inr (VNum (Math_round n))))
      else if typeName = ''Float'' then
        (if typeof_number v then Inr v
         else (case js_Number rt v of Inl e \<Rightarrow> Inl e | Inr n \<Rightarrow> Inr (VNum n)))
      else if typeName = ''String'' \<or> typeName = ''ID'' then
        (if typeof_string v then Inr v
         else (case js_String rt v of Inl e \<Rightarrow> Inl e | Inr s \<Rightarrow> Inr (VStr s)))
      else if typeName = ''Boolean'' then
        (if typeof_boolean v then Inr v else Inr (VBool (js_Boolean v)))
      else Inr v)"

text \<open>The measure of the traversals: a property read is smaller than the value read.\<close>

fun weight :: "jsvalue \<Rightarrow> nat" where
  "weight VUndefined = 0"
| "weight VNull = 0"
| "weight (VBool _) = 1"
| "weight (VNum _) = 1"
| "weight (VStr _) = 2"
| "weight (VArr items) = 2 + sum_list (map weight items)"
| "weight (VObj kvs) = 2 + sum_list (map (\<lambda>kv. weight (snd kv)) kvs)"

lemma weight_item: "item \<in> set items \<Longrightarrow> weight item \<le> sum_list (map weight items)"
  by (induction items) auto

lemma weight_map_of:
  "map_of kvs key = Some v \<Longrightarrow> weight v \<le> sum_list (map (\<lambda>kv. weight (snd kv)) kvs)"
  by (induction kvs) (auto split: if_splits)

lemma weight_get_prop: "isPlainObject v \<Longrightarrow> weight (get_prop v key) < weight v"
proof (cases v)
  case (VObj kvs)
  show ?thesis
  proof (cases "map_of kvs key")
    case None
    with VObj show ?thesis by simp
  next
    case (Some x)
    from weight_map_of [OF Some] VObj Some show ?thesis by simp
  qed
qed (auto simp: isPlainObject_def)

text \<open>
  \<open>result[key] = x\<close> on the object under construction, which starts as \<open>{}\<close>. Under any
  name but \<open>__proto__\<close> it replaces the value of a key that is there and appends a new
  key (\<open>AList.update\<close>). Under \<open>__proto__\<close> it calls the setter that \<open>result\<close> inherits,
  which makes no own property: the object keeps the keys it has. (The setter replaces
  the prototype of \<open>result\<close> when \<open>x\<close> is \<open>null\<close>; the value assigned under that name is
  always \<open>null\<close> or \<open>undefined\<close>, the expected type there never being a string. The
  prototype of a result is not part of the value, and nothing below reads it.)
\<close>

definition assign ::
  "string \<Rightarrow> jsvalue \<Rightarrow> (string \<times> jsvalue) list \<Rightarrow> (string \<times> jsvalue) list" where
  "assign key x result = (if key = ''__proto__'' then result else AList.update key x result)"

text \<open>
  The loop \<open>for (const key in value) { const type = ...; if (type) { result[key] =
  fixValue(value[key], ...) } }\<close> of \<open>fixValue\<close> and of \<open>fixInputData\<close>, from the keys
  still to visit and the \<open>result\<close> so far. An exception ends it.
\<close>

fun for_in ::
  "(string \<Rightarrow> field_read) \<Rightarrow> (string \<Rightarrow> type_ref \<Rightarrow> js_error + jsvalue) \<Rightarrow>
   string list \<Rightarrow> (string \<times> jsvalue) list \<Rightarrow> js_error + (string \<times> jsvalue) list" where
  "for_in read fix [] result = Inr result"
| "for_in read fix (key # keys) result =
     (case read key of
        Skip \<Rightarrow> for_in read fix keys result
      | ReadThrows \<Rightarrow> Inl JS_TypeError
      | Use t \<Rightarrow>
          (case fix key t of
             Inl e \<Rightarrow> Inl e
           | Inr x \<Rightarrow> for_in read fix keys (assign key x result)))"

text \<open>
  \<open>fixValue\<close>. What it hands to \<open>parseSchemaType\<close> may not be a string; the call then
  throws a \<open>TypeError\<close>.
\<close>

function fixValue ::
  "js_runtime \<Rightarrow> jsvalue \<Rightarrow> type_ref \<Rightarrow> schema \<Rightarrow> js_error + jsvalue" where
  "fixValue rt v typeName schema =
     (if nullish v then Inr v
      else
        (case typeName of
           NotAString \<Rightarrow> Inl JS_TypeError
         | TypeName name \<Rightarrow>
             let p = parseSchemaType name in
             if isArray p then
               (if \<not> Array_isArray v then Inr VUndefined
                else (case v of
                        VArr items \<Rightarrow>
                          (case collect (map (\<lambda>item. fixValue rt item (TypeName (pureType p)) schema)
                                           items) of
                             Inl e \<Rightarrow> Inl e
                           | Inr fixed \<Rightarrow> Inr (VArr fixed))
                      | _ \<Rightarrow> Inr VUndefined))
             else if isScalar (pureType p) then fixScalar rt v (pureType p)
             else
               (case read_schema schema (pureType p) of
                  None \<Rightarrow> Inr v
                | Some typeObject \<Rightarrow>
                    if \<not> isPlainObject v then Inr VUndefined
                    else (case for_in (read_field rt typeObject)
                                 (\<lambda>key t. fixValue rt (get_prop v key) t schema)
                                 (own_keys v) [] of
                            Inl e \<Rightarrow> Inl e
                          | Inr result \<Rightarrow> Inr (VObj result)))))"
  by pat_completeness auto
termination
proof (relation "measure (\<lambda>(rt, v, typeName, schema). weight v)", goal_cases)
  case 1
  show ?case by simp
next
  case 2
  then show ?case by (auto dest: weight_item)
next
  case 3
  then show ?case by (simp add: weight_get_prop)
qed

declare fixValue.simps [simp del]

definition fixInputData ::
  "js_runtime \<Rightarrow> jsvalue \<Rightarrow> gtype \<Rightarrow> schema \<Rightarrow> js_error + jsvalue" where
  "fixInputData rt data operationType schema =
     (if \<not> isPlainObject data then Inr data
      else (case for_in (read_arg operationType)
                   (\<lambda>key argTypeName. fixValue rt (get_prop data key) argTypeName schema)
                   (own_keys data) [] of
              Inl e \<Rightarrow> Inl e
            | Inr result \<Rightarrow> Inr (VObj result)))"

section \<open>validateRequiredInputData.ts\<close>

text \<open>The validator imports \<open>isPlainObject\<close> and \<open>isScalar\<close> from \<open>helpers/utils.ts\<close>,
  where they are defined as in \<open>fixInputData.ts\<close>.\<close>

record validation_context =
  validationErrors :: "(string \<times> string) list"
  requiredErrorMessage :: string

text \<open>A path segment is a field name or an array index; a template literal prints an
  index in decimal.\<close>

datatype path_segment = Key string | Index nat

definition digit_char :: "nat \<Rightarrow> char" where
  "digit_char d = ''0123456789'' ! (d mod 10)"

fun string_of_nat :: "nat \<Rightarrow> string" where
  "string_of_nat n =
     (if n < 10 then [digit_char n] else string_of_nat (n div 10) @ [digit_char (n mod 10)])"

declare string_of_nat.simps [simp del]

fun template :: "path_segment \<Rightarrow> string" where
  "template (Key name) = name"
| "template (Index i) = string_of_nat i"

definition appendFieldPath :: "string option \<Rightarrow> path_segment \<Rightarrow> string" where
  "appendFieldPath current fieldPath =
     (case current of
        None \<Rightarrow> template fieldPath
      | Some c \<Rightarrow> if c = [] then template fieldPath else c @ ''.'' @ template fieldPath)"

text \<open>\<open>context.validationErrors[path] = context.requiredErrorMessage\<close>. The list holds
  the violations in the order they were first recorded; the object of the code holds the
  same mapping.\<close>

definition add_required :: "string \<Rightarrow> validation_context \<Rightarrow> validation_context" where
  "add_required path context =
     context\<lparr>validationErrors :=
       AList.update path (requiredErrorMessage context) (validationErrors context)\<rparr>"

text \<open>\<open>value.forEach((item, index) => ...)\<close> visits the items with their indices.\<close>

definition indexed :: "'a list \<Rightarrow> ('a \<times> nat) list" where
  "indexed items = zip items [0..<length items]"

lemma indexed_item: "(item, index) \<in> set (indexed items) \<Longrightarrow> item \<in> set items"
  by (auto simp: indexed_def dest: set_zip_leftD)

text \<open>
  The walk reads \<open>schema[pureType]\<close> among the own properties of the schema. What the
  read finds instead under the name of a member of \<open>Object.prototype\<close> has no enumerable
  property: the loop over its fields visits nothing, and the walk ends there as it does
  when nothing is found.
\<close>

function validateValue ::
  "jsvalue \<Rightarrow> string \<Rightarrow> string \<Rightarrow> schema \<Rightarrow> validation_context \<Rightarrow> validation_context" where
  "validateValue v fieldPath typeName schema context =
     (let p = parseSchemaType typeName in
      if \<not> isNullable p \<and> nullish v then add_required fieldPath context
      else
        let context1 =
              (if isArray p \<and> \<not> nullableItems p then
                 (case v of
                    VArr items \<Rightarrow>
                      fold (\<lambda>(item, index) c.
                              if nullish item
                              then add_required (appendFieldPath (Some fieldPath) (Index index)) c
                              else c)
                           (indexed items) context
                  | _ \<Rightarrow> context)
               else context)
        in
          if isArray p then
            (case v of
               VArr items \<Rightarrow>
                 fold (\<lambda>(item, index) c.
                         validateValue item (appendFieldPath (Some fieldPath) (Index index))
                           (pureType p) schema c)
                      (indexed items) context1
             | _ \<Rightarrow> context1)
          else if \<not> isScalar (pureType p) then
            (case schema (pureType p) of
               None \<Rightarrow> context1
             | Some typeObject \<Rightarrow>
                 if \<not> isPlainObject v then context1
                 else fold (\<lambda>(key, ty) c.
                              validateValue (get_prop v key)
                                (appendFieldPath (Some fieldPath) (Key key))
                                (dunder_type ty) schema c)
                           typeObject context1)
          else context1)"
  by pat_completeness auto
termination
proof (relation "measure (\<lambda>(v, fieldPath, typeName, schema, context). weight v)", goal_cases)
  case 1
  show ?case by simp
next
  case 2
  then show ?case by (auto dest!: indexed_item weight_item)
next
  case 3
  then show ?case by (simp add: weight_get_prop)
qed

declare validateValue.simps [simp del]

definition validateRequiredInputData ::
  "jsvalue \<Rightarrow> gtype \<Rightarrow> schema \<Rightarrow> string \<Rightarrow> (string \<times> string) list option" where
  "validateRequiredInputData data operationType schema message =
     (let context = \<lparr>validationErrors = [], requiredErrorMessage = message\<rparr> in
      if \<not> isPlainObject data then None
      else
        let args = (case dunder_args operationType of None \<Rightarrow> [] | Some a \<Rightarrow> a);
            context' = fold (\<lambda>(key, argTypeName) c.
                               validateValue (get_prop data key) [] argTypeName schema c)
                            args context
        in if 0 < length (map fst (validationErrors context'))
           then Some (validationErrors context') else None)"

section \<open>helpers/queryBatcher.ts\<close>

text \<open>
  A request entry holds the thunk and the \<open>resolve\<close> and \<open>reject\<close> callbacks of the promise
  that \<open>request\<close> returns. The model names the promise by a number; calling an entry's
  \<open>resolve\<close> or \<open>reject\<close> is recorded as a call on that promise.
\<close>

record 'f request_entry =
  func :: 'f
  promise :: nat

text \<open>What a \<open>catch\<close> can receive: an error of the client, or the \<open>TypeError\<close> of
  calling \<open>resolve\<close> on \<open>reqs[i]\<close> when it is \<open>undefined\<close>.\<close>

datatype 'e thrown = ClientError 'e | TypeError

datatype ('r, 'e) callback = Resolve nat 'r | Reject nat "'e thrown"

text \<open>
  \<open>gqlessClient.resolved\<close> is external. It is used twice: on the thunk that runs every
  entry's thunk and returns the array of their results, and on one entry's thunk. Each
  use either returns or throws.
\<close>

record ('f, 'r, 'e) gqless_client =
  resolved_all :: "'f list \<Rightarrow> 'e + 'r list"
  resolved_one :: "'f \<Rightarrow> 'e + 'r"

text \<open>The closure's variables \<open>requests\<close> and \<open>hTimeout\<close>, and the next promise to create.\<close>

record 'f batcher_state =
  requests :: "'f request_entry list"
  hTimeout :: "unit option"
  next_promise :: nat

definition createQueryBatcher :: "'f batcher_state" where
  "createQueryBatcher = \<lparr>requests = [], hTimeout = None, next_promise = 0\<rparr>"

text \<open>\<open>hTimeout = setTimeout(...)\<close>: only whether a handle is there is ever read.\<close>

definition startTimeout :: "'f batcher_state \<Rightarrow> 'f batcher_state" where
  "startTimeout st = st\<lparr>hTimeout := Some ()\<rparr>"

text \<open>\<open>request\<close> returns the new promise.\<close>

definition request :: "'f \<Rightarrow> 'f batcher_state \<Rightarrow> nat \<times> 'f batcher_state" where
  "request f st =
     (let p = next_promise st;
          st1 = st\<lparr>requests := requests st @ [\<lparr>func = f, promise = p\<rparr>],
                    next_promise := Suc p\<rparr>
      in (p, if hTimeout st1 = None then startTimeout st1 else st1))"

text \<open>
  \<open>results.forEach((res, i) => reqs[i].resolve(res))\<close>: the calls made, and whether the
  loop threw because \<open>reqs[i]\<close> was out of range.
\<close>

fun resolve_each ::
  "nat \<Rightarrow> 'r list \<Rightarrow> 'f request_entry list \<Rightarrow> ('r, 'e) callback list \<times> bool" where
  "resolve_each i [] reqs = ([], False)"
| "resolve_each i (res # rest) reqs =
     (if i < length reqs
      then (let (calls, threw) = resolve_each (Suc i) rest reqs
            in (Resolve (promise (reqs ! i)) res # calls, threw))
      else ([], True))"

text \<open>The retry of one entry: \<open>resolve\<close> with its result, or \<open>reject\<close> with its error.\<close>

definition retry_one ::
  "('f, 'r, 'e) gqless_client \<Rightarrow> 'f request_entry \<Rightarrow> ('r, 'e) callback" where
  "retry_one client req =
     (case resolved_one client (func req) of
        Inr result \<Rightarrow> Resolve (promise req) result
      | Inl reqErr \<Rightarrow> Reject (promise req) (ClientError reqErr))"

text \<open>
  The \<open>catch (err)\<close> block. The retries run concurrently; the calls are listed in the
  order of the entries.
\<close>

definition on_error ::
  "('f, 'r, 'e) gqless_client \<Rightarrow> 'f request_entry list \<Rightarrow> 'e thrown \<Rightarrow> ('r, 'e) callback list"
  where
  "on_error client reqs err =
     (if length reqs = 1 then [Reject (promise (reqs ! 0)) err]
      else map (retry_one client) reqs)"

text \<open>
  One run of \<open>runRequests\<close>: the queue it took, and the callbacks it called. The queue
  is copied and emptied before the first \<open>await\<close>; what runs after an \<open>await\<close> reads
  the copy only and touches neither \<open>requests\<close> nor \<open>hTimeout\<close>, so the run is one step
  of the model.
\<close>

record ('f, 'r, 'e) cycle =
  snapshot :: "'f request_entry list"
  callbacks :: "('r, 'e) callback list"

definition runRequests ::
  "('f, 'r, 'e) gqless_client \<Rightarrow> 'f batcher_state \<Rightarrow> 'f batcher_state \<times> ('f, 'r, 'e) cycle"
  where
  "runRequests client st =
     (let reqs = requests st;
          st' = st\<lparr>requests := []\<rparr>
      in case resolved_all client (map func reqs) of
           Inr results \<Rightarrow>
             (case resolve_each 0 results reqs of
                (calls, threw) \<Rightarrow>
                  (st', \<lparr>snapshot = reqs,
                         callbacks = (if threw then calls @ on_error client reqs TypeError
                                      else calls)\<rparr>))
         | Inl err \<Rightarrow>
             (st', \<lparr>snapshot = reqs, callbacks = on_error client reqs (ClientError err)\<rparr>))"

text \<open>The callback given to \<open>setTimeout\<close>.\<close>

definition timeout_callback ::
  "('f, 'r, 'e) gqless_client \<Rightarrow> 'f batcher_state \<Rightarrow> 'f batcher_state \<times> ('f, 'r, 'e) cycle"
  where
  "timeout_callback client st = runRequests client (st\<lparr>hTimeout := None\<rparr>)"

text \<open>
  What happens to a batcher: a caller submits a thunk, or the timer fires. A timer fires
  only if it was set; nothing clears one. \<open>run\<close> follows a sequence of events from a
  state and collects the cycles in order.
\<close>

datatype 'f event = Submit 'f | TimerFires

fun step ::
  "('f, 'r, 'e) gqless_client \<Rightarrow> 'f event \<Rightarrow>
   'f batcher_state \<times> ('f, 'r, 'e) cycle list \<Rightarrow> 'f batcher_state \<times> ('f, 'r, 'e) cycle list"
  where
  "step client (Submit f) (st, cycles) = (snd (request f st), cycles)"
| "step client TimerFires (st, cycles) =
     (if hTimeout st = None then (st, cycles)
      else (let (st', c) = timeout_callback client st in (st', cycles @ [c])))"

definition run ::
  "('f, 'r, 'e) gqless_client \<Rightarrow> 'f event list \<Rightarrow> 'f batcher_state \<Rightarrow>
   'f batcher_state \<times> ('f, 'r, 'e) cycle list" where
  "run client events st = fold (step client) events (st, [])"

text \<open>The thunks submitted by a sequence of events, in order.\<close>

fun submitted :: "'f event list \<Rightarrow> 'f list" where
  "submitted [] = []"
| "submitted (Submit f # events) = f # submitted events"
| "submitted (TimerFires # events) = submitted events"

text \<open>The entries that \<open>request\<close> creates for a list of thunks, the first promise being
  \<open>p\<close>.\<close>

fun new_entries :: "nat \<Rightarrow> 'f list \<Rightarrow> 'f request_entry list" where
  "new_entries p [] = []"
| "new_entries p (f # fs) = \<lparr>func = f, promise = p\<rparr> # new_entries (Suc p) fs"

section \<open>What the fixer promises, as predicates\<close>

text \<open>A value with no keys of its own: neither an array nor an object.\<close>

fun primitive :: "jsvalue \<Rightarrow> bool" where
  "primitive (VArr _) = False"
| "primitive (VObj _) = False"
| "primitive _ = True"

lemma weight_entry:
  "(key, x) \<in> set kvs \<Longrightarrow> weight x \<le> sum_list (map (\<lambda>kv. weight (snd kv)) kvs)"
  by (induction kvs) auto

text \<open>
  \<open>pruned schema v typeName\<close>: the value \<open>v\<close>, standing where the schema expects
  \<open>typeName\<close>, has no key the schema does not know, at any depth. Where an array is
  expected the value is an array of such values; where a scalar is expected it has no
  keys at all; where a type of the schema is expected it is an object whose keys are all
  fields of that type, each holding such a value for the field's type. A type without a
  schema entry is opaque: nothing is asked of the value. \<open>null\<close> and \<open>undefined\<close> have
  no keys anywhere.
\<close>

function pruned :: "schema \<Rightarrow> jsvalue \<Rightarrow> string \<Rightarrow> bool" where
  "pruned schema v typeName =
     (if nullish v then True
      else
        let p = parseSchemaType typeName in
        if isArray p then
          (case v of
             VArr items \<Rightarrow> list_all (\<lambda>item. pruned schema item (pureType p)) items
           | _ \<Rightarrow> False)
        else if isScalar (pureType p) then primitive v
        else
          (case schema (pureType p) of
             None \<Rightarrow> True
           | Some typeObject \<Rightarrow>
               (case v of
                  VObj kvs \<Rightarrow>
                    list_all (\<lambda>kv. case map_of typeObject (fst kv) of
                                      Some ty \<Rightarrow> pruned schema (snd kv) (dunder_type ty)
                                    | None \<Rightarrow> False) kvs
                | _ \<Rightarrow> False)))"
  by pat_completeness auto
termination
proof (relation "measure (\<lambda>(schema, v, typeName). weight v)", goal_cases)
  case 1
  show ?case by simp
next
  case 2
  then show ?case by (auto dest: weight_item)
next
  case (3 schema v typeName p typeObject kvs kv ty)
  then show ?case by (cases kv) (auto dest: weight_entry)
qed

declare pruned.simps [simp del]

text \<open>The same at the root, where the expected keys are the operation's arguments.\<close>

definition pruned_args :: "schema \<Rightarrow> gtype \<Rightarrow> jsvalue \<Rightarrow> bool" where
  "pruned_args schema operationType v =
     (case v of
        VObj kvs \<Rightarrow>
          list_all (\<lambda>kv. case dunder_args operationType of
                            None \<Rightarrow> False
                          | Some args \<Rightarrow>
                              (case map_of args (fst kv) of
                                 Some argTypeName \<Rightarrow> pruned schema (snd kv) argTypeName
                               | None \<Rightarrow> False)) kvs
      | _ \<Rightarrow> False)"

section \<open>Sample inputs\<close>

text \<open>
  A runtime that converts the few strings and numbers the examples use and knows of a
  built-in function only that it has a name, a schema with one input type, and an
  operation with two arguments.
\<close>

definition sample_runtime :: js_runtime where
  "sample_runtime =
     \<lparr>str_to_num = (\<lambda>s. if s = ''42'' then Fin 42 else if s = ''2.5'' then Fin (5 / 2) else NaN),
      num_to_str = (\<lambda>n. if n = Fin 3 then ''3'' else ''NaN''),
      member_prop = (\<lambda>member key. if key = ''name'' \<and> member \<noteq> ''__proto__'' then Truthy
                                    else Falsy)\<rparr>"

definition sample_schema :: schema where
  "sample_schema =
     (\<lambda>name. if name = ''UserInput''
              then Some [(''name'', \<lparr>dunder_args = None, dunder_type = ''String!''\<rparr>),
                         (''tags'', \<lparr>dunder_args = None, dunder_type = ''[String!]''\<rparr>)]
              else None)"

definition sample_operation :: gtype where
  "sample_operation =
     \<lparr>dunder_args = Some [(''id'', ''Int!''), (''user'', ''UserInput!'')], dunder_type = ''User''\<rparr>"

definition sample_data :: jsvalue where
  "sample_data =
     VObj [(''id'', VStr ''42''),
           (''extra'', VBool True),
           (''user'', VObj [(''name'', VNum (Fin 3)),
                            (''junk'', VNull),
                            (''tags'', VArr [VStr ''a'', VNull])])]"

text \<open>Two clients: one whose calls all succeed, and one whose combined call fails and
  whose call on the thunk \<open>BB\<close> alone fails.\<close>

definition sample_client :: "(string, nat, string) gqless_client" where
  "sample_client =
     \<lparr>resolved_all = (\<lambda>fs. Inr (map length fs)),
      resolved_one = (\<lambda>f. Inr (length f))\<rparr>"

definition failing_client :: "(string, nat, string) gqless_client" where
  "failing_client =
     \<lparr>resolved_all = (\<lambda>fs. Inl ''combined''),
      resolved_one = (\<lambda>f. if f = ''BB'' then Inl ''alone'' else Inr (length f))\<rparr>"

section \<open>Properties of fixInputData.ts\<close>

subsection \<open>The \<open>for (key in value)\<close> loop that fills \<open>result\<close>\<close>

lemma for_in_keys:
  "for_in rd f ks A = Inr R \<Longrightarrow>
   fst ` set R = fst ` set A \<union> {k \<in> set ks. k \<noteq> ''__proto__'' \<and> (\<exists>t. rd k = Use t)}"
proof (induction ks arbitrary: A)
  case Nil
  then show ?case by simp
next
  case (Cons k ks)
  show ?case
  proof (cases "rd k")
    case (Use t)
    with Cons.prems obtain x where x: "f k t = Inr x"
      and r: "for_in rd f ks (assign k x A) = Inr R"
      by (auto split: sum.splits)
    from Cons.IH [OF r] Use show ?thesis
      by (auto simp: assign_def AList.dom_update)
  next
    case Skip
    with Cons show ?thesis by auto
  next
    case ReadThrows
    with Cons.prems show ?thesis by simp
  qed
qed

lemma for_in_distinct:
  "for_in rd f ks A = Inr R \<Longrightarrow> distinct (map fst A) \<Longrightarrow> distinct (map fst R)"
proof (induction ks arbitrary: A)
  case Nil
  then show ?case by simp
next
  case (Cons k ks)
  show ?case
  proof (cases "rd k")
    case (Use t)
    with Cons.prems obtain x where x: "f k t = Inr x"
      and r: "for_in rd f ks (assign k x A) = Inr R"
      by (auto split: sum.splits)
    have "distinct (map fst (assign k x A))"
      using Cons.prems(2) by (simp add: assign_def AList.distinct_update)
    from Cons.IH [OF r this] show ?thesis .
  next
    case Skip
    with Cons show ?thesis by auto
  next
    case ReadThrows
    with Cons.prems show ?thesis by simp
  qed
qed

lemma for_in_map_of:
  "for_in rd f ks A = Inr R \<Longrightarrow> map_of R k = Some x \<Longrightarrow>
   map_of A k = Some x \<or>
   (k \<in> set ks \<and> k \<noteq> ''__proto__'' \<and> (\<exists>t. rd k = Use t \<and> f k t = Inr x))"
proof (induction ks arbitrary: A)
  case Nil
  then show ?case by simp
next
  case (Cons k' ks)
  show ?case
  proof (cases "rd k'")
    case (Use t)
    with Cons.prems obtain y where y: "f k' t = Inr y"
      and r: "for_in rd f ks (assign k' y A) = Inr R"
      by (auto split: sum.splits)
    from Cons.IH [OF r Cons.prems(2)] Use y show ?thesis
      by (auto simp: assign_def AList.update_conv' split: if_splits)
  next
    case Skip
    with Cons show ?thesis by auto
  next
    case ReadThrows
    with Cons.prems show ?thesis by simp
  qed
qed

lemma update_fresh: "k \<notin> fst ` set acc \<Longrightarrow> AList.update k v acc = acc @ [(k, v)]"
  by (induction acc) auto

lemma for_in_rebuild:
  "distinct (map fst (A @ R)) \<Longrightarrow>
   (\<forall>(k, x) \<in> set R. k \<noteq> ''__proto__'' \<and> (\<exists>t. rd k = Use t \<and> g k t = Inr x)) \<Longrightarrow>
   for_in rd g (map fst R) A = Inr (A @ R)"
proof (induction R arbitrary: A)
  case Nil
  then show ?case by simp
next
  case (Cons kv R)
  obtain k x where kv: "kv = (k, x)" by (cases kv)
  from Cons.prems kv obtain t where t: "k \<noteq> ''__proto__''" "rd k = Use t" "g k t = Inr x"
    by auto
  from Cons.prems kv have fresh: "k \<notin> fst ` set A" by auto
  have d: "distinct (map fst ((A @ [(k, x)]) @ R))" using Cons.prems kv by auto
  have r: "\<forall>(k, x) \<in> set R. k \<noteq> ''__proto__'' \<and> (\<exists>t. rd k = Use t \<and> g k t = Inr x)"
    using Cons.prems by auto
  show ?case using Cons.IH [OF d r] t fresh kv by (simp add: assign_def update_fresh)
qed

lemma for_in_entry:
  assumes "for_in rd f ks [] = Inr R" and "(k, x) \<in> set R"
  shows "k \<in> set ks \<and> k \<noteq> ''__proto__'' \<and> (\<exists>t. rd k = Use t \<and> f k t = Inr x)"
proof -
  have "distinct (map fst R)" using for_in_distinct [OF assms(1)] by simp
  with assms(2) have "map_of R k = Some x" by simp
  from for_in_map_of [OF assms(1) this] show ?thesis by simp
qed

lemma for_in_idem:
  assumes R: "for_in rd f ks [] = Inr R"
    and IH: "\<And>k t x. k \<in> set ks \<Longrightarrow> rd k = Use t \<Longrightarrow> f k t = Inr x \<Longrightarrow> h x t = Inr x"
  shows "for_in rd (\<lambda>k t. h (get_prop (VObj R) k) t) (map fst R) [] = Inr R"
proof -
  have d: "distinct (map fst ([] @ R))" using for_in_distinct [OF R] by simp
  have "\<forall>(k, x) \<in> set R. k \<noteq> ''__proto__'' \<and>
          (\<exists>t. rd k = Use t \<and> h (get_prop (VObj R) k) t = Inr x)"
  proof (clarify)
    fix k x assume kx: "(k, x) \<in> set R"
    from for_in_entry [OF R kx] obtain t where
      t: "k \<in> set ks" "k \<noteq> ''__proto__''" "rd k = Use t" "f k t = Inr x" by blast
    from d kx have "map_of R k = Some x" by simp
    with IH [OF t(1,3,4)] t
    show "k \<noteq> ''__proto__'' \<and> (\<exists>t. rd k = Use t \<and> h (get_prop (VObj R) k) t = Inr x)"
      by simp
  qed
  from for_in_rebuild [where A = "[]" and R = R and rd = rd
      and g = "\<lambda>k t. h (get_prop (VObj R) k) t", OF d this]
  show ?thesis by simp
qed

subsection \<open>Calls made in order\<close>

lemma collect_Inr: "collect xs = Inr ys \<longleftrightarrow> xs = map Inr ys"
proof (induction xs arbitrary: ys)
  case Nil
  show ?case by auto
next
  case (Cons x xs)
  show ?case
  proof (cases x)
    case (Inl e)
    then show ?thesis by (cases ys) auto
  next
    case (Inr y)
    show ?thesis
    proof (cases "collect xs")
      case (Inl e)
      with Cons.IH Inr show ?thesis by (cases ys) auto
    next
      case r: (Inr zs)
      with Cons.IH [of zs] have "xs = map Inr zs" by simp
      with r Inr show ?thesis by (cases ys) (auto simp: inj_map_eq_map)
    qed
  qed
qed

lemma collect_map_idem:
  assumes "collect (map f xs) = Inr ys"
    and "\<And>x y. x \<in> set xs \<Longrightarrow> f x = Inr y \<Longrightarrow> g y = Inr y"
  shows "collect (map g ys) = Inr ys"
proof -
  from assms(1) have m: "map f xs = map Inr ys" by (simp add: collect_Inr)
  have "map g ys = map Inr ys"
  proof (rule map_cong [OF refl], goal_cases)
    case (1 y)
    then have "Inr y \<in> set (map f xs)" unfolding m by simp
    then obtain x where "x \<in> set xs" "f x = Inr y" by auto
    then show ?case by (rule assms(2))
  qed
  then show ?thesis by (simp add: collect_Inr)
qed

subsection \<open>Idempotence\<close>

lemma floor_half: "\<lfloor>1 / 2 :: rat\<rfloor> = 0"
  by (rule floor_unique) simp_all

lemma Math_round_idem: "Math_round (Math_round n) = Math_round n"
  by (cases n) (simp_all add: floor_half)

lemma fixScalar_Int_rounded:
  "fixScalar rt (VNum (Math_round n)) ''Int'' = Inr (VNum (Math_round n))"
  by (simp add: fixScalar_def Math_round_idem)

lemma fixScalar_idem:
  assumes "fixScalar rt v T = Inr r"
  shows "fixScalar rt r T = Inr r"
proof -
  consider (int) "T = ''Int''" | (float) "T = ''Float''"
    | (string) "T = ''String'' \<or> T = ''ID''" | (boolean) "T = ''Boolean''"
    | (other) "T \<noteq> ''Int''" "T \<noteq> ''Float''" "T \<noteq> ''String''" "T \<noteq> ''ID''" "T \<noteq> ''Boolean''"
    by blast
  then show ?thesis
  proof cases
    case int
    show ?thesis
    proof (cases "typeof_number v \<and> Number_isInteger v")
      case True
      with assms int have "r = v" by (simp add: fixScalar_def)
      with True int show ?thesis by (simp add: fixScalar_def)
    next
      case False
      with assms int obtain n where "r = VNum (Math_round n)"
        by (cases "js_Number rt v") (auto simp: fixScalar_def)
      with int show ?thesis by (simp add: fixScalar_Int_rounded)
    qed
  next
    case float
    show ?thesis
    proof (cases "typeof_number v")
      case True
      with assms float have "r = v" by (simp add: fixScalar_def)
      with True float show ?thesis by (simp add: fixScalar_def)
    next
      case False
      with assms float obtain n where "r = VNum n"
        by (cases "js_Number rt v") (auto simp: fixScalar_def)
      with float show ?thesis by (simp add: fixScalar_def)
    qed
  next
    case string
    show ?thesis
    proof (cases "typeof_string v")
      case True
      with assms string have "r = v" by (auto simp: fixScalar_def)
      with True string show ?thesis by (auto simp: fixScalar_def)
    next
      case False
      with assms string obtain s where "r = VStr s"
        by (cases "js_String rt v") (auto simp: fixScalar_def)
      with string show ?thesis by (auto simp: fixScalar_def)
    qed
  next
    case boolean
    show ?thesis
    proof (cases "typeof_boolean v")
      case True
      with assms boolean have "r = v" by (simp add: fixScalar_def)
      with True boolean show ?thesis by (simp add: fixScalar_def)
    next
      case False
      with assms boolean have "r = VBool (js_Boolean v)" by (simp add: fixScalar_def)
      with boolean show ?thesis by (simp add: fixScalar_def)
    qed
  next
    case other
    with assms show ?thesis by (simp add: fixScalar_def)
  qed
qed

lemma fixValue_nullish: "nullish v \<Longrightarrow> fixValue rt v typeName schema = Inr v"
  by (subst fixValue.simps) simp

lemma fixValue_not_a_string:
  "\<not> nullish v \<Longrightarrow> fixValue rt v NotAString schema = Inl JS_TypeError"
  by (subst fixValue.simps) simp

lemma fixValue_array:
  "isArray (parseSchemaType name) \<Longrightarrow>
   fixValue rt (VArr items) (TypeName name) schema =
     (case collect (map (\<lambda>item. fixValue rt item (TypeName (pureType (parseSchemaType name))) schema)
                      items) of
        Inl e \<Rightarrow> Inl e
      | Inr fixed \<Rightarrow> Inr (VArr fixed))"
  by (subst fixValue.simps) simp

lemma fixValue_not_array:
  "isArray (parseSchemaType name) \<Longrightarrow> \<not> Array_isArray v \<Longrightarrow>
   fixValue rt v (TypeName name) schema = Inr (if nullish v then v else VUndefined)"
  by (subst fixValue.simps) simp

lemma fixValue_scalar:
  "\<not> nullish v \<Longrightarrow> \<not> isArray (parseSchemaType name) \<Longrightarrow>
   isScalar (pureType (parseSchemaType name)) \<Longrightarrow>
   fixValue rt v (TypeName name) schema = fixScalar rt v (pureType (parseSchemaType name))"
  by (subst fixValue.simps) simp

lemma fixValue_opaque:
  "\<not> isArray (parseSchemaType name) \<Longrightarrow>
   \<not> isScalar (pureType (parseSchemaType name)) \<Longrightarrow>
   read_schema schema (pureType (parseSchemaType name)) = None \<Longrightarrow>
   fixValue rt v (TypeName name) schema = Inr v"
  by (subst fixValue.simps) simp

lemma fixValue_object:
  "\<not> nullish v \<Longrightarrow> \<not> isArray (parseSchemaType name) \<Longrightarrow>
   \<not> isScalar (pureType (parseSchemaType name)) \<Longrightarrow>
   read_schema schema (pureType (parseSchemaType name)) = Some typeObject \<Longrightarrow>
   fixValue rt v (TypeName name) schema =
     (if \<not> isPlainObject v then Inr VUndefined
      else (case for_in (read_field rt typeObject)
                   (\<lambda>key t. fixValue rt (get_prop v key) t schema)
                   (own_keys v) [] of
              Inl e \<Rightarrow> Inl e
            | Inr result \<Rightarrow> Inr (VObj result)))"
  by (subst fixValue.simps) simp

lemma fixValue_idem:
  "fixValue rt v typeName schema = Inr r \<Longrightarrow> fixValue rt r typeName schema = Inr r"
proof (induction v arbitrary: typeName r rule: measure_induct_rule [where f = weight])
  case (less v)
  note res = less.prems
  show ?case
  proof (cases "nullish v")
    case True
    with res show ?thesis by (simp add: fixValue_nullish)
  next
    case nn: False
    show ?thesis
    proof (cases typeName)
      case NotAString
      with res nn show ?thesis by (simp add: fixValue_not_a_string)
    next
      case (TypeName name)
      let ?p = "parseSchemaType name"
      show ?thesis
      proof (cases "isArray ?p")
        case arr: True
        show ?thesis
        proof (cases v)
          case (VArr items)
          let ?f = "\<lambda>item. fixValue rt item (TypeName (pureType ?p)) schema"
          from res VArr arr TypeName obtain fixed where
            c: "collect (map ?f items) = Inr fixed" and r: "r = VArr fixed"
            by (auto simp: fixValue_array split: sum.splits)
          have "collect (map ?f fixed) = Inr fixed"
          proof (rule collect_map_idem [OF c])
            fix x y assume "x \<in> set items" "?f x = Inr y"
            with less.IH [of x "TypeName (pureType ?p)" y] VArr
            show "?f y = Inr y" by (auto dest: weight_item)
          qed
          with r arr TypeName show ?thesis by (simp add: fixValue_array)
        qed (use res arr nn TypeName in \<open>auto simp: fixValue_not_array fixValue_nullish\<close>)
      next
        case narr: False
        show ?thesis
        proof (cases "isScalar (pureType ?p)")
          case sc: True
          from res nn narr sc TypeName have s: "fixScalar rt v (pureType ?p) = Inr r"
            by (simp add: fixValue_scalar)
          show ?thesis
          proof (cases "nullish r")
            case True
            then show ?thesis by (simp add: fixValue_nullish)
          next
            case False
            with fixScalar_idem [OF s] narr sc TypeName show ?thesis
              by (simp add: fixValue_scalar)
          qed
        next
          case nsc: False
          show ?thesis
          proof (cases "read_schema schema (pureType ?p)")
            case None
            with res narr nsc TypeName show ?thesis by (simp add: fixValue_opaque)
          next
            case (Some typeObject)
            show ?thesis
            proof (cases "isPlainObject v")
              case False
              with res nn narr nsc Some TypeName show ?thesis
                by (simp add: fixValue_object fixValue_nullish)
            next
              case po: True
              let ?f = "\<lambda>key t. fixValue rt (get_prop v key) t schema"
              from res nn narr nsc Some po TypeName obtain R where
                R: "for_in (read_field rt typeObject) ?f (own_keys v) [] = Inr R"
                and r: "r = VObj R"
                by (auto simp: fixValue_object split: sum.splits)
              have "for_in (read_field rt typeObject)
                      (\<lambda>k t. fixValue rt (get_prop (VObj R) k) t schema) (map fst R) [] = Inr R"
              proof (rule for_in_idem [where h = "\<lambda>x t. fixValue rt x t schema", OF R])
                fix k t x assume "?f k t = Inr x"
                with less.IH [of "get_prop v k" t x] weight_get_prop [OF po]
                show "fixValue rt x t schema = Inr x" by simp
              qed
              with r narr nsc Some TypeName show ?thesis
                by (simp add: fixValue_object isPlainObject_def)
            qed
          qed
        qed
      qed
    qed
  qed
qed

lemma fixInputData_idem:
  assumes "fixInputData rt data operationType schema = Inr r"
  shows "fixInputData rt r operationType schema = Inr r"
proof (cases "isPlainObject data")
  case False
  with assms show ?thesis by (simp add: fixInputData_def)
next
  case True
  let ?f = "\<lambda>key t. fixValue rt (get_prop data key) t schema"
  from assms True obtain R where
    R: "for_in (read_arg operationType) ?f (own_keys data) [] = Inr R" and r: "r = VObj R"
    by (auto simp: fixInputData_def split: sum.splits)
  have "for_in (read_arg operationType)
          (\<lambda>k t. fixValue rt (get_prop (VObj R) k) t schema) (map fst R) [] = Inr R"
  proof (rule for_in_idem [where h = "\<lambda>x t. fixValue rt x t schema", OF R])
    fix k t x assume "?f k t = Inr x"
    then show "fixValue rt x t schema = Inr x" by (rule fixValue_idem)
  qed
  with r show ?thesis by (simp add: fixInputData_def isPlainObject_def)
qed

text \<open>
  C1. Fixing is idempotent: for every value, type name, operation type and schema,
  \<open>fix(fix(x))\<close> ends as \<open>fix(x)\<close> does. Where \<open>fix(x)\<close> returns, fixing what it returned
  returns the same value again; where \<open>fix(x)\<close> throws, so does \<open>fix(fix(x))\<close>, the inner
  call being the one that throws. This holds of \<open>fixInputData\<close> and of the recursive
  \<open>fixValue\<close>. Values are compared as data, by their own properties: the prototype of a
  result, which a key named \<open>__proto__\<close> holding \<open>null\<close> makes the fixer replace, is not
  part of the value.
\<close>

theorem fix_idempotent:
  "(case fixInputData rt x T S of
      Inl e \<Rightarrow> Inl e
    | Inr y \<Rightarrow> fixInputData rt y T S) = fixInputData rt x T S \<and>
   (case fixValue rt x typeName S of
      Inl e \<Rightarrow> Inl e
    | Inr y \<Rightarrow> fixValue rt y typeName S) = fixValue rt x typeName S"
proof
  show "(case fixInputData rt x T S of
      Inl e \<Rightarrow> Inl e
    | Inr y \<Rightarrow> fixInputData rt y T S) = fixInputData rt x T S"
  proof (cases "fixInputData rt x T S")
    case (Inl e)
    then show ?thesis by simp
  next
    case (Inr y)
    with fixInputData_idem [OF Inr] show ?thesis by simp
  qed
next
  show "(case fixValue rt x typeName S of
      Inl e \<Rightarrow> Inl e
    | Inr y \<Rightarrow> fixValue rt y typeName S) = fixValue rt x typeName S"
  proof (cases "fixValue rt x typeName S")
    case (Inl e)
    then show ?thesis by simp
  next
    case (Inr y)
    with fixValue_idem [OF Inr] show ?thesis by simp
  qed
qed

text \<open>At the sample data, which is fixed to a value that fixing leaves alone, and at an
  input on which the fixer throws.\<close>

theorem fix_idempotent_witness:
  "fixInputData sample_runtime sample_data sample_operation sample_schema =
     Inr (VObj [(''id'', VNum (Fin 42)),
                (''user'', VObj [(''name'', VStr ''3''), (''tags'', VArr [VStr ''a'', VNull])])]) \<and>
   fixInputData sample_runtime
     (VObj [(''id'', VNum (Fin 42)),
            (''user'', VObj [(''name'', VStr ''3''), (''tags'', VArr [VStr ''a'', VNull])])])
     sample_operation sample_schema =
     Inr (VObj [(''id'', VNum (Fin 42)),
                (''user'', VObj [(''name'', VStr ''3''), (''tags'', VArr [VStr ''a'', VNull])])]) \<and>
   fixInputData sample_runtime (VObj [(''constructor'', VNum (Fin 1))]) sample_operation
     sample_schema = Inl JS_TypeError"
proof -
  have e: "fixInputData sample_runtime sample_data sample_operation sample_schema =
     Inr (VObj [(''id'', VNum (Fin 42)),
                (''user'', VObj [(''name'', VStr ''3''), (''tags'', VArr [VStr ''a'', VNull])])])"
    by code_simp
  have t: "fixInputData sample_runtime (VObj [(''constructor'', VNum (Fin 1))]) sample_operation
     sample_schema = Inl JS_TypeError"
    by code_simp
  from fix_idempotent [where rt = sample_runtime and x = sample_data and T = sample_operation
      and S = sample_schema, THEN conjunct1]
    e
  have "fixInputData sample_runtime
     (VObj [(''id'', VNum (Fin 42)),
            (''user'', VObj [(''name'', VStr ''3''), (''tags'', VArr [VStr ''a'', VNull])])])
     sample_operation sample_schema =
     Inr (VObj [(''id'', VNum (Fin 42)),
                (''user'', VObj [(''name'', VStr ''3''), (''tags'', VArr [VStr ''a'', VNull])])])"
    by simp
  with e t show ?thesis by (intro conjI)
qed

text \<open>
  C2. A root that is not an object is to be returned unchanged. \<open>isPlainObject\<close> holds of
  every value that is neither \<open>null\<close>, \<open>undefined\<close> nor an array, so a number passes the
  guard, the loop finds no key, and the number \<open>5\<close> comes back as the empty object.
\<close>

theorem fixInputData_number_root:
  "fixInputData rt (VNum (Fin 5)) operationType schema = Inr (VObj [])"
  by (simp add: fixInputData_def isPlainObject_def)

subsection \<open>Pruning\<close>

text \<open>
  C3. Pruning: the output of \<open>fixInputData\<close> is to contain, at every depth, no key that
  is absent from the schema's field set for the type expected there. The code keeps a
  key when \<open>args?.[key]\<close>, or \<open>typeObject[key]\<close>, is truthy, and these reads also find the
  members the records of the schema inherit from \<open>Object.prototype\<close>. A key named after
  such a member and holding \<open>null\<close> is therefore kept, though the schema has no field of
  that name: \<open>{constructor: null}\<close> comes back as itself, and so does
  \<open>{id: 1, user: {name: ''x'', toString: null}}\<close>, whose stray key is at depth two.
  Neither output is pruned.
\<close>

theorem fixInputData_keeps_inherited_keys:
  "fixInputData sample_runtime (VObj [(''constructor'', VNull)]) sample_operation sample_schema
     = Inr (VObj [(''constructor'', VNull)]) \<and>
   \<not> pruned_args sample_schema sample_operation (VObj [(''constructor'', VNull)]) \<and>
   fixInputData sample_runtime
       (VObj [(''id'', VNum (Fin 1)),
              (''user'', VObj [(''name'', VStr ''x''), (''toString'', VNull)])])
       sample_operation sample_schema
     = Inr (VObj [(''id'', VNum (Fin 1)),
                  (''user'', VObj [(''name'', VStr ''x''), (''toString'', VNull)])]) \<and>
   \<not> pruned_args sample_schema sample_operation
       (VObj [(''id'', VNum (Fin 1)),
              (''user'', VObj [(''name'', VStr ''x''), (''toString'', VNull)])])"
proof (intro conjI)
  show "fixInputData sample_runtime (VObj [(''constructor'', VNull)]) sample_operation
          sample_schema = Inr (VObj [(''constructor'', VNull)])"
    by code_simp
  show "\<not> pruned_args sample_schema sample_operation (VObj [(''constructor'', VNull)])"
    by code_simp
  show "fixInputData sample_runtime
       (VObj [(''id'', VNum (Fin 1)),
              (''user'', VObj [(''name'', VStr ''x''), (''toString'', VNull)])])
       sample_operation sample_schema
     = Inr (VObj [(''id'', VNum (Fin 1)),
                  (''user'', VObj [(''name'', VStr ''x''), (''toString'', VNull)])])"
    by code_simp
  show "\<not> pruned_args sample_schema sample_operation
       (VObj [(''id'', VNum (Fin 1)),
              (''user'', VObj [(''name'', VStr ''x''), (''toString'', VNull)])])"
    by code_simp
qed

subsection \<open>Scalar coercion\<close>

lemma Math_round_nearest:
  "\<exists>z. Math_round (Fin q) = Fin (of_int z) \<and> \<bar>of_int z - q\<bar> \<le> 1 / 2"
proof -
  let ?z = "\<lfloor>q + 1 / 2\<rfloor>"
  have "of_int ?z \<le> q + 1 / 2" by linarith
  moreover have "q + 1 / 2 < of_int ?z + 1" by linarith
  ultimately have "\<bar>of_int ?z - q\<bar> \<le> 1 / 2" by linarith
  then show ?thesis by auto
qed

lemma floor_three_halves: "\<lfloor>3 / 2 :: rat\<rfloor> = 1"
  by (rule floor_unique) simp_all

lemma floor_int_half: "\<lfloor>of_int k + 1 / 2 :: rat\<rfloor> = k"
  by (rule floor_unique) simp_all

lemma Math_round_tie: "Math_round (Fin (of_int k + 1 / 2)) = Fin (of_int k + 1)"
proof -
  have "\<lfloor>of_int k + 1 / 2 + 1 / 2 :: rat\<rfloor> = k + 1"
    by (rule floor_unique) simp_all
  then show ?thesis by simp
qed

lemma not_integer_half: "\<not> Number_isInteger (VNum (Fin (of_int k + 1 / 2)))"
  by (simp add: floor_int_half)

lemma js_Number_primitive: "primitive v \<Longrightarrow> \<exists>n. js_Number rt v = Inr n"
  by (cases v) simp_all

text \<open>
  C7. Scalar coercion. To \<open>Int\<close>: an integral number is kept; any other value is handed
  to \<open>Number\<close> and what it gives is rounded, and when that number is finite the result is
  an integer at most one half away from it, a tie going up. \<open>Number\<close> gives a number on
  every primitive (\<open>1\<close> on \<open>true\<close>, \<open>0\<close> on \<open>false\<close> and \<open>null\<close>, \<open>NaN\<close> on \<open>undefined\<close>) and
  the number of their string on arrays and objects; it throws on an object whose own
  \<open>toString\<close> hides the inherited one, and the coercion throws with it. A string
  coerced to \<open>Int\<close> or \<open>Float\<close> gives a native number. A value that is not a boolean,
  coerced to \<open>Boolean\<close>, gives the native boolean of its truthiness: \<open>false\<close> on
  \<open>undefined\<close>, \<open>null\<close>, \<open>NaN\<close>, \<open>0\<close> and the empty string, \<open>true\<close> on everything else. A
  number under \<open>Float\<close>, a string under \<open>String\<close> or \<open>ID\<close> and a boolean under \<open>Boolean\<close>
  pass through unchanged.
\<close>

theorem fixScalar_coercion:
  "(Number_isInteger vi \<longrightarrow> fixScalar rt vi ''Int'' = Inr vi) \<and>
   (\<not> Number_isInteger v \<longrightarrow>
      fixScalar rt v ''Int'' =
        (case js_Number rt v of Inl e \<Rightarrow> Inl e | Inr n \<Rightarrow> Inr (VNum (Math_round n)))) \<and>
   (\<not> Number_isInteger v \<and> js_Number rt v = Inr (Fin q) \<longrightarrow>
      (\<exists>z. fixScalar rt v ''Int'' = Inr (VNum (Fin (of_int z))) \<and> \<bar>of_int z - q\<bar> \<le> 1 / 2)) \<and>
   (primitive u \<longrightarrow> (\<exists>n. js_Number rt u = Inr n)) \<and>
   fixScalar rt (VObj ((''toString'', x) # kvs)) ''Int'' = Inl JS_TypeError \<and>
   fixScalar rt (VBool True) ''Int'' = Inr (VNum (Fin 1)) \<and>
   fixScalar rt VNull ''Float'' = Inr (VNum (Fin 0)) \<and>
   fixScalar rt VUndefined ''Float'' = Inr (VNum NaN) \<and>
   fixScalar rt (VBool False) ''Float'' = Inr (VNum (Fin 0)) \<and>
   fixScalar rt (VArr [VStr s]) ''Float'' = Inr (VNum (str_to_num rt s)) \<and>
   fixScalar rt (VObj []) ''Float'' = Inr (VNum (str_to_num rt ''[object Object]'')) \<and>
   fixScalar rt (VNum (Fin (of_int k + 1 / 2))) ''Int'' = Inr (VNum (Fin (of_int k + 1))) \<and>
   fixScalar rt (VStr s) ''Int'' = Inr (VNum (Math_round (str_to_num rt s))) \<and>
   fixScalar rt (VStr s) ''Float'' = Inr (VNum (str_to_num rt s)) \<and>
   (\<not> typeof_boolean w \<longrightarrow>
      fixScalar rt w ''Boolean'' =
        Inr (VBool (w \<notin> set [VUndefined, VNull, VNum NaN, VNum (Fin 0), VStr []]))) \<and>
   fixScalar rt (VNum n) ''Float'' = Inr (VNum n) \<and>
   fixScalar rt (VStr s) ''String'' = Inr (VStr s) \<and>
   fixScalar rt (VStr s) ''ID'' = Inr (VStr s) \<and>
   fixScalar rt (VBool b) ''Boolean'' = Inr (VBool b)"
proof -
  have a: "Number_isInteger vi \<longrightarrow> fixScalar rt vi ''Int'' = Inr vi"
    by (cases vi) (auto simp: fixScalar_def)
  have b: "\<not> Number_isInteger v \<longrightarrow>
      fixScalar rt v ''Int'' =
        (case js_Number rt v of Inl e \<Rightarrow> Inl e | Inr n \<Rightarrow> Inr (VNum (Math_round n)))"
    by (simp add: fixScalar_def)
  have c: "\<not> Number_isInteger v \<and> js_Number rt v = Inr (Fin q) \<longrightarrow>
      (\<exists>z. fixScalar rt v ''Int'' = Inr (VNum (Fin (of_int z))) \<and> \<bar>of_int z - q\<bar> \<le> 1 / 2)"
    using Math_round_nearest [of q] by (auto simp: fixScalar_def simp del: Math_round.simps)
  have d: "primitive u \<longrightarrow> (\<exists>n. js_Number rt u = Inr n)"
    by (simp add: js_Number_primitive)
  have e: "fixScalar rt (VObj ((''toString'', x) # kvs)) ''Int'' = Inl JS_TypeError"
    by (simp add: fixScalar_def)
  have f: "fixScalar rt (VBool True) ''Int'' = Inr (VNum (Fin 1))"
    by (simp add: fixScalar_def floor_three_halves)
  have g: "\<not> typeof_boolean w \<longrightarrow>
      fixScalar rt w ''Boolean'' =
        Inr (VBool (w \<notin> set [VUndefined, VNull, VNum NaN, VNum (Fin 0), VStr []]))"
    by (cases w) (auto simp: fixScalar_def)
  have tie: "fixScalar rt (VNum (Fin (of_int k + 1 / 2))) ''Int'' = Inr (VNum (Fin (of_int k + 1)))"
    using not_integer_half [of k] Math_round_tie [of k]
    by (simp add: fixScalar_def del: Math_round.simps Number_isInteger.simps)
  have h: "fixScalar rt VNull ''Float'' = Inr (VNum (Fin 0))"
    "fixScalar rt VUndefined ''Float'' = Inr (VNum NaN)"
    "fixScalar rt (VBool False) ''Float'' = Inr (VNum (Fin 0))"
    "fixScalar rt (VArr [VStr s]) ''Float'' = Inr (VNum (str_to_num rt s))"
    "fixScalar rt (VObj []) ''Float'' = Inr (VNum (str_to_num rt ''[object Object]''))"
    "fixScalar rt (VStr s) ''Int'' = Inr (VNum (Math_round (str_to_num rt s)))"
    "fixScalar rt (VStr s) ''Float'' = Inr (VNum (str_to_num rt s))"
    "fixScalar rt (VNum n) ''Float'' = Inr (VNum n)"
    "fixScalar rt (VStr s) ''String'' = Inr (VStr s)"
    "fixScalar rt (VStr s) ''ID'' = Inr (VStr s)"
    "fixScalar rt (VBool b) ''Boolean'' = Inr (VBool b)"
    by (simp_all add: fixScalar_def)
  from a b c d e f g h tie show ?thesis by (intro conjI)
qed

theorem fixScalar_coercion_witness:
  "Number_isInteger (VNum (Fin 3)) \<and>
   fixScalar sample_runtime (VNum (Fin 3)) ''Int'' = Inr (VNum (Fin 3)) \<and>
   \<not> Number_isInteger (VStr ''2.5'') \<and>
   js_Number sample_runtime (VStr ''2.5'') = Inr (Fin (5 / 2)) \<and>
   fixScalar sample_runtime (VStr ''2.5'') ''Int'' = Inr (VNum (Fin 3)) \<and>
   primitive (VStr ''2.5'') \<and>
   fixScalar sample_runtime (VStr ''42'') ''Int'' = Inr (VNum (Fin 42)) \<and>
   fixScalar sample_runtime (VStr ''42'') ''Float'' = Inr (VNum (Fin 42)) \<and>
   \<not> typeof_boolean (VStr ''no'') \<and>
   fixScalar sample_runtime (VStr ''no'') ''Boolean'' = Inr (VBool True) \<and>
   \<not> typeof_boolean (VStr []) \<and>
   fixScalar sample_runtime (VStr []) ''Boolean'' = Inr (VBool False) \<and>
   \<not> typeof_boolean (VNum (Fin 0)) \<and>
   fixScalar sample_runtime (VNum (Fin 0)) ''Boolean'' = Inr (VBool False) \<and>
   \<not> typeof_boolean (VNum NaN) \<and>
   fixScalar sample_runtime (VNum NaN) ''Boolean'' = Inr (VBool False) \<and>
   \<not> typeof_boolean VNull \<and>
   fixScalar sample_runtime VNull ''Boolean'' = Inr (VBool False) \<and>
   \<not> typeof_boolean (VObj []) \<and>
   fixScalar sample_runtime (VObj []) ''Boolean'' = Inr (VBool True) \<and>
   fixScalar sample_runtime (VNum (Fin (5 / 2))) ''Float'' = Inr (VNum (Fin (5 / 2)))"
proof -
  have h1: "Number_isInteger (VNum (Fin 3))" by code_simp
  have h2: "\<not> Number_isInteger (VStr ''2.5'')" by simp
  have h3: "js_Number sample_runtime (VStr ''2.5'') = Inr (Fin (5 / 2))" by code_simp
  have h4: "\<not> typeof_boolean (VStr ''no'')" "\<not> typeof_boolean (VStr [])"
    "\<not> typeof_boolean (VNum (Fin 0))" "\<not> typeof_boolean (VObj [])" "primitive (VStr ''2.5'')"
    "\<not> typeof_boolean (VNum NaN)" "\<not> typeof_boolean VNull"
    by simp_all
  have e1: "Math_round (Fin (5 / 2)) = Fin 3" by code_simp
  have e2: "Math_round (str_to_num sample_runtime ''42'') = Fin 42" by code_simp
  have e3: "str_to_num sample_runtime ''42'' = Fin 42" by code_simp
  note t = fixScalar_coercion [where rt = sample_runtime and vi = "VNum (Fin 3)"
      and v = "VStr ''2.5''" and s = "''42''" and n = "Fin (5 / 2)"]
  from t [where w = "VStr ''no''"] h1 h2 h3 h4
  have a: "fixScalar sample_runtime (VNum (Fin 3)) ''Int'' = Inr (VNum (Fin 3))"
    and b: "fixScalar sample_runtime (VStr ''2.5'') ''Int'' =
        (case js_Number sample_runtime (VStr ''2.5'') of
           Inl e \<Rightarrow> Inl e | Inr n \<Rightarrow> Inr (VNum (Math_round n)))"
    and c: "fixScalar sample_runtime (VStr ''42'') ''Int''
          = Inr (VNum (Math_round (str_to_num sample_runtime ''42'')))"
    and d: "fixScalar sample_runtime (VStr ''42'') ''Float''
          = Inr (VNum (str_to_num sample_runtime ''42''))"
    and f: "fixScalar sample_runtime (VNum (Fin (5 / 2))) ''Float'' = Inr (VNum (Fin (5 / 2)))"
    and w1: "fixScalar sample_runtime (VStr ''no'') ''Boolean'' = Inr (VBool True)"
    by simp_all
  from t [where w = "VStr []"] h4
  have w2: "fixScalar sample_runtime (VStr []) ''Boolean'' = Inr (VBool False)" by simp
  from t [where w = "VNum (Fin 0)"] h4
  have w3: "fixScalar sample_runtime (VNum (Fin 0)) ''Boolean'' = Inr (VBool False)" by simp
  from t [where w = "VObj []"] h4
  have w4: "fixScalar sample_runtime (VObj []) ''Boolean'' = Inr (VBool True)" by simp
  from t [where w = "VNum NaN"] h4
  have w5: "fixScalar sample_runtime (VNum NaN) ''Boolean'' = Inr (VBool False)" by simp
  from t [where w = VNull] h4
  have w6: "fixScalar sample_runtime VNull ''Boolean'' = Inr (VBool False)" by simp
  from b h3 e1 have b': "fixScalar sample_runtime (VStr ''2.5'') ''Int'' = Inr (VNum (Fin 3))"
    by simp
  from c e2 have c': "fixScalar sample_runtime (VStr ''42'') ''Int'' = Inr (VNum (Fin 42))"
    by simp
  from d e3 have d': "fixScalar sample_runtime (VStr ''42'') ''Float'' = Inr (VNum (Fin 42))"
    by simp
  from h1 a h2 h3 b' h4 c' d' w1 w2 w3 w4 w5 w6 f show ?thesis by (intro conjI)
qed

section \<open>Properties of the validator\<close>

lemma validateValue_required:
  "\<not> isNullable (parseSchemaType typeName) \<Longrightarrow> nullish v \<Longrightarrow>
   validateValue v fieldPath typeName schema context = add_required fieldPath context"
  by (simp add: validateValue.simps)

lemma parseSchemaType_scalar:
  "isScalar typeName \<Longrightarrow>
   parseSchemaType typeName =
     \<lparr>pureType = typeName, isNullable = True, isArray = False, nullableItems = True\<rparr>"
  by (auto simp: isScalar_def scalars_def parseSchemaType_def endsWith_def startsWith_def)

lemma validateValue_scalar:
  "isScalar typeName \<Longrightarrow> validateValue v fieldPath typeName schema context = context"
  by (simp add: validateValue.simps [of v fieldPath typeName] parseSchemaType_scalar)

lemma validateValue_items:
  "isArray (parseSchemaType typeName) \<Longrightarrow> \<not> nullableItems (parseSchemaType typeName) \<Longrightarrow>
   validateValue (VArr items) fieldPath typeName schema context =
     fold (\<lambda>(item, index) c.
             validateValue item (appendFieldPath (Some fieldPath) (Index index))
               (pureType (parseSchemaType typeName)) schema c)
          (indexed items)
          (fold (\<lambda>(item, index) c.
                   if nullish item
                   then add_required (appendFieldPath (Some fieldPath) (Index index)) c
                   else c)
                (indexed items) context)"
  by (simp add: validateValue.simps [of "VArr items"])

lemma indexed3: "indexed [a, b, c] = [(a, 0), (b, 1), (c, 2)]"
  by (simp add: indexed_def numeral_2_eq_2)

lemma string_of_nat_1: "string_of_nat (Suc 0) = ''1''"
  by code_simp

text \<open>
  C8. Validator path convention: validating \<open>{name: null}\<close> against an operation whose
  single argument \<open>name\<close> has a non-nullable type gives a violations mapping whose only
  key is the empty string.
\<close>

theorem validate_null_name:
  assumes "\<not> isNullable (parseSchemaType argTypeName)"
  shows "validateRequiredInputData (VObj [(''name'', VNull)])
           \<lparr>dunder_args = Some [(''name'', argTypeName)], dunder_type = t\<rparr> schema message
         = Some [([], message)]"
  using assms
  by (simp add: validateRequiredInputData_def isPlainObject_def validateValue_required
      add_required_def)

theorem validate_null_name_witness:
  "\<not> isNullable (parseSchemaType ''String!'') \<and>
   validateRequiredInputData (VObj [(''name'', VNull)])
     \<lparr>dunder_args = Some [(''name'', ''String!'')], dunder_type = ''User''\<rparr>
     sample_schema ''required''
   = Some [([], ''required'')]"
proof -
  have h: "\<not> isNullable (parseSchemaType ''String!'')" by code_simp
  from validate_null_name [OF h] h show ?thesis by (intro conjI)
qed

text \<open>
  C9. Array null propagation: validating \<open>[1, null, 3]\<close> as a top-level argument whose type
  is an array of non-nullable items of a scalar type gives exactly one violation, at path
  \<open>1\<close>. The siblings of a null item are still validated: the walk of an array of
  non-nullable items hands every item to \<open>validateValue\<close>, after the null checks.
\<close>

theorem validate_array_null_item:
  assumes "isArray (parseSchemaType argTypeName)"
    and "\<not> nullableItems (parseSchemaType argTypeName)"
    and "isScalar (pureType (parseSchemaType argTypeName))"
  shows "validateRequiredInputData (VObj [(key, VArr [VNum (Fin 1), VNull, VNum (Fin 3)])])
           \<lparr>dunder_args = Some [(key, argTypeName)], dunder_type = t\<rparr> schema message
         = Some [(''1'', message)] \<and>
         validateValue (VArr items) fieldPath argTypeName schema context =
           fold (\<lambda>(item, index) c.
                   validateValue item (appendFieldPath (Some fieldPath) (Index index))
                     (pureType (parseSchemaType argTypeName)) schema c)
                (indexed items)
                (fold (\<lambda>(item, index) c.
                         if nullish item
                         then add_required (appendFieldPath (Some fieldPath) (Index index)) c
                         else c)
                      (indexed items) context)"
proof
  show "validateRequiredInputData (VObj [(key, VArr [VNum (Fin 1), VNull, VNum (Fin 3)])])
           \<lparr>dunder_args = Some [(key, argTypeName)], dunder_type = t\<rparr> schema message
         = Some [(''1'', message)]"
    using assms
    by (simp add: validateRequiredInputData_def isPlainObject_def validateValue_items
        validateValue_scalar indexed3 add_required_def appendFieldPath_def string_of_nat_1)
next
  show "validateValue (VArr items) fieldPath argTypeName schema context =
           fold (\<lambda>(item, index) c.
                   validateValue item (appendFieldPath (Some fieldPath) (Index index))
                     (pureType (parseSchemaType argTypeName)) schema c)
                (indexed items)
                (fold (\<lambda>(item, index) c.
                         if nullish item
                         then add_required (appendFieldPath (Some fieldPath) (Index index)) c
                         else c)
                      (indexed items) context)"
    using assms(1,2) by (rule validateValue_items)
qed

text \<open>
  At \<open>[Int!]\<close>; and at \<open>[UserInput!]\<close>, where the item after the null one has a missing
  required field, which is reported too.
\<close>

theorem validate_array_null_item_witness:
  "isArray (parseSchemaType ''[Int!]'') \<and>
   \<not> nullableItems (parseSchemaType ''[Int!]'') \<and>
   isScalar (pureType (parseSchemaType ''[Int!]'')) \<and>
   validateRequiredInputData (VObj [(''ids'', VArr [VNum (Fin 1), VNull, VNum (Fin 3)])])
     \<lparr>dunder_args = Some [(''ids'', ''[Int!]'')], dunder_type = ''User''\<rparr>
     sample_schema ''required''
   = Some [(''1'', ''required'')] \<and>
   validateRequiredInputData
     (VObj [(''users'', VArr [VObj [(''name'', VStr ''a'')], VNull, VObj [(''name'', VNull)]])])
     \<lparr>dunder_args = Some [(''users'', ''[UserInput!]'')], dunder_type = ''User''\<rparr>
     sample_schema ''required''
   = Some [(''1'', ''required''), (''2.name'', ''required'')]"
proof -
  have h1: "isArray (parseSchemaType ''[Int!]'')" by code_simp
  have h2: "\<not> nullableItems (parseSchemaType ''[Int!]'')" by code_simp
  have h3: "isScalar (pureType (parseSchemaType ''[Int!]''))" by code_simp
  have e: "validateRequiredInputData
     (VObj [(''users'', VArr [VObj [(''name'', VStr ''a'')], VNull, VObj [(''name'', VNull)]])])
     \<lparr>dunder_args = Some [(''users'', ''[UserInput!]'')], dunder_type = ''User''\<rparr>
     sample_schema ''required''
   = Some [(''1'', ''required''), (''2.name'', ''required'')]" by code_simp
  from validate_array_null_item [OF h1 h2 h3, THEN conjunct1] h1 h2 h3 e
  show ?thesis by (intro conjI)
qed

text \<open>
  C10. When the root data is \<open>null\<close>, \<open>undefined\<close> or an array, the validator returns the
  no-errors result, whatever the operation declares; no required-field violation is
  reported for such a root.
\<close>

theorem validate_non_object_root:
  assumes "nullish data \<or> Array_isArray data"
  shows "validateRequiredInputData data operationType schema message = None"
  using assms by (auto simp: validateRequiredInputData_def isPlainObject_def)

text \<open>The sample operation has the required argument \<open>id\<close>: the empty object is
  reported, \<open>null\<close> is not.\<close>

theorem validate_non_object_root_witness:
  "(nullish VNull \<or> Array_isArray VNull) \<and>
   validateRequiredInputData VNull sample_operation sample_schema ''required'' = None \<and>
   validateRequiredInputData (VObj []) sample_operation sample_schema ''required''
     = Some [([], ''required'')]"
proof -
  have h: "nullish VNull \<or> Array_isArray VNull" by simp
  have e: "validateRequiredInputData (VObj []) sample_operation sample_schema ''required''
     = Some [([], ''required'')]" by code_simp
  from validate_non_object_root [OF h] h e show ?thesis by (intro conjI)
qed

section \<open>Properties of the batcher\<close>

lemma new_entries_func: "map func (new_entries p fs) = fs"
  by (induction fs arbitrary: p) auto

lemma new_entries_promise: "map promise (new_entries p fs) = [p..<p + length fs]"
  by (induction fs arbitrary: p) (auto simp: upt_rec)

lemma new_entries_length: "length (new_entries p fs) = length fs"
  by (induction fs arbitrary: p) auto

lemma new_entries_nth:
  "i < length fs \<Longrightarrow> new_entries p fs ! i = \<lparr>func = fs ! i, promise = p + i\<rparr>"
proof (induction fs arbitrary: p i)
  case Nil
  then show ?case by simp
next
  case (Cons f fs)
  then show ?case by (cases i) auto
qed

lemma run_submits:
  "fold (step client) (map Submit fs) (st, cs) =
     (st\<lparr>requests := requests st @ new_entries (next_promise st) fs,
         hTimeout := (if fs = [] then hTimeout st else Some ()),
         next_promise := next_promise st + length fs\<rparr>, cs)"
proof (induction fs arbitrary: st)
  case Nil
  show ?case by simp
next
  case (Cons f fs)
  show ?case
    by (simp add: Cons.IH request_def startTimeout_def Let_def)
qed

lemma resolve_each_in_range:
  "i + length results \<le> length reqs \<Longrightarrow>
   resolve_each i results reqs =
     (map (\<lambda>(req, res). Resolve (promise req) res) (zip (drop i reqs) results), False)"
proof (induction results arbitrary: i)
  case Nil
  show ?case by simp
next
  case (Cons res rest)
  then have i: "i < length reqs" by simp
  from Cons.prems have "Suc i + length rest \<le> length reqs" by simp
  from Cons.IH [OF this] i show ?case
    by (simp add: Cons_nth_drop_Suc [symmetric])
qed

lemma runRequests_success:
  fixes client :: "('f, 'r, 'e) gqless_client"
  assumes "resolved_all client (map func (requests st)) = Inr results"
    and "length results = length (requests st)"
  shows "runRequests client st =
           (st\<lparr>requests := []\<rparr>,
            \<lparr>snapshot = requests st,
             callbacks = map (\<lambda>(req, res). Resolve (promise req) res) (zip (requests st) results)\<rparr>)"
proof -
  have "(resolve_each 0 results (requests st) :: ('r, 'e) callback list \<times> bool) =
          (map (\<lambda>(req, res). Resolve (promise req) res) (zip (requests st) results), False)"
    using assms(2) resolve_each_in_range [of 0 results "requests st"] by simp
  with assms(1) show ?thesis by (simp add: runRequests_def Let_def)
qed

lemma runRequests_failure:
  assumes "resolved_all client (map func (requests st)) = Inl err"
  shows "runRequests client st =
           (st\<lparr>requests := []\<rparr>,
            \<lparr>snapshot = requests st,
             callbacks = on_error client (requests st) (ClientError err)\<rparr>)"
  using assms by (simp add: runRequests_def Let_def)

lemma runRequests_state:
  "fst (runRequests client st) = st\<lparr>requests := []\<rparr> \<and>
   snapshot (snd (runRequests client st)) = requests st"
  by (auto simp: runRequests_def Let_def split: sum.splits prod.splits)

lemma run_window:
  assumes "requests st0 = []" and "hTimeout st0 = None" and "fs \<noteq> []"
  shows "\<exists>st. requests st = new_entries (next_promise st0) fs \<and>
              run client (map Submit fs @ [TimerFires]) st0 =
                (fst (runRequests client st), [snd (runRequests client st)])"
proof -
  define st where
    "st = (fst (fold (step client) (map Submit fs) (st0, [])))\<lparr>hTimeout := None\<rparr>"
  have r: "requests st = new_entries (next_promise st0) fs"
    using assms by (simp add: st_def run_submits)
  have "run client (map Submit fs @ [TimerFires]) st0 =
          (fst (runRequests client st), [snd (runRequests client st)])"
    using assms
    by (simp add: run_def run_submits timeout_callback_def st_def split: prod.splits)
  with r show ?thesis by blast
qed

text \<open>
  C4. Batched success is positional: when the thunks \<open>fs\<close> are submitted to an idle
  batcher, the timer fires, and the combined execution returns as many results as there
  are thunks, there is one cycle; it holds the entries in submission order, and the
  \<open>resolve\<close> callback of the \<open>i\<close>-th submitted entry is called with the \<open>i\<close>-th result,
  for every position, and nothing else is called.
\<close>

theorem batch_success_positional:
  assumes "requests st0 = []" and "hTimeout st0 = None" and "fs \<noteq> []"
    and "resolved_all client fs = Inr results"
    and "length results = length fs"
  shows "snd (run client (map Submit fs @ [TimerFires]) st0) =
           [\<lparr>snapshot = new_entries (next_promise st0) fs,
             callbacks = map (\<lambda>i. Resolve (next_promise st0 + i) (results ! i)) [0..<length fs]\<rparr>]"
proof -
  from run_window [OF assms(1-3)] obtain st where
    st: "requests st = new_entries (next_promise st0) fs"
      "run client (map Submit fs @ [TimerFires]) st0 =
         (fst (runRequests client st), [snd (runRequests client st)])"
    by blast
  have "map (\<lambda>(req, res). Resolve (promise req) res) (zip (new_entries (next_promise st0) fs) results)
          = map (\<lambda>i. Resolve (next_promise st0 + i) (results ! i)) [0..<length fs]"
    using assms(5)
    by (intro nth_equalityI) (simp_all add: new_entries_length new_entries_nth)
  with runRequests_success [of client st results] st assms(4,5)
  show ?thesis by (simp add: new_entries_func new_entries_length)
qed

theorem batch_success_positional_witness:
  "requests (createQueryBatcher :: string batcher_state) = [] \<and>
   hTimeout (createQueryBatcher :: string batcher_state) = None \<and>
   [''A'', ''BB''] \<noteq> [] \<and>
   resolved_all sample_client [''A'', ''BB''] = Inr [1, 2] \<and>
   length [1, 2 :: nat] = length [''A'', ''BB''] \<and>
   snd (run sample_client (map Submit [''A'', ''BB''] @ [TimerFires]) createQueryBatcher) =
     [\<lparr>snapshot = [\<lparr>func = ''A'', promise = 0\<rparr>, \<lparr>func = ''BB'', promise = 1\<rparr>],
       callbacks = [Resolve 0 1, Resolve 1 2]\<rparr>]"
proof -
  have h1: "requests (createQueryBatcher :: string batcher_state) = []"
    by (simp add: createQueryBatcher_def)
  have h2: "hTimeout (createQueryBatcher :: string batcher_state) = None"
    by (simp add: createQueryBatcher_def)
  have h3: "[''A'', ''BB''] \<noteq> []" by simp
  have h4: "resolved_all sample_client [''A'', ''BB''] = Inr [1, 2]"
    by (simp add: sample_client_def)
  have h5: "length [1, 2 :: nat] = length [''A'', ''BB'']" by simp
  have e: "[\<lparr>snapshot = new_entries (next_promise (createQueryBatcher :: string batcher_state))
                          [''A'', ''BB''],
             callbacks = map (\<lambda>i. Resolve (next_promise (createQueryBatcher :: string batcher_state) + i)
                                   ([1, 2 :: nat] ! i)) [0..<length [''A'', ''BB'']]\<rparr>]
           = [\<lparr>snapshot = [\<lparr>func = ''A'', promise = 0\<rparr>, \<lparr>func = ''BB'', promise = 1\<rparr>],
               callbacks = [Resolve 0 1, Resolve 1 2 :: (nat, string) callback]\<rparr>]"
    by (simp add: createQueryBatcher_def upt_rec)
  from batch_success_positional [OF h1 h2 h3 h4 h5] e h1 h2 h3 h4 h5
  show ?thesis by simp
qed

text \<open>
  C5. Batch failure degradation: when the combined execution of a cycle fails, a cycle
  of one entry rejects that entry with the combined error itself; a cycle of several
  entries runs each entry's thunk alone, and the entry at position \<open>i\<close> is resolved or
  rejected by the outcome of its own thunk \<open>fs ! i\<close> only, whatever its siblings' outcomes.
\<close>

theorem batch_failure_degradation:
  assumes "requests st0 = []" and "hTimeout st0 = None" and "fs \<noteq> []"
    and "resolved_all client fs = Inl err"
  shows "snd (run client (map Submit fs @ [TimerFires]) st0) =
           [\<lparr>snapshot = new_entries (next_promise st0) fs,
             callbacks =
               (if length fs = 1 then [Reject (next_promise st0) (ClientError err)]
                else map (\<lambda>i. case resolved_one client (fs ! i) of
                                 Inr result \<Rightarrow> Resolve (next_promise st0 + i) result
                               | Inl reqErr \<Rightarrow> Reject (next_promise st0 + i) (ClientError reqErr))
                         [0..<length fs])\<rparr>]"
proof -
  from run_window [OF assms(1-3)] obtain st where
    st: "requests st = new_entries (next_promise st0) fs"
      "run client (map Submit fs @ [TimerFires]) st0 =
         (fst (runRequests client st), [snd (runRequests client st)])"
    by blast
  have one: "length fs = 1 \<Longrightarrow>
               on_error client (new_entries (next_promise st0) fs) (ClientError err)
                 = [Reject (next_promise st0) (ClientError err)]"
    by (simp add: on_error_def new_entries_length new_entries_nth)
  have many: "length fs \<noteq> 1 \<Longrightarrow>
               on_error client (new_entries (next_promise st0) fs) (ClientError err)
                 = map (\<lambda>i. case resolved_one client (fs ! i) of
                                 Inr result \<Rightarrow> Resolve (next_promise st0 + i) result
                               | Inl reqErr \<Rightarrow> Reject (next_promise st0 + i) (ClientError reqErr))
                         [0..<length fs]"
    by (intro nth_equalityI)
       (simp_all add: on_error_def new_entries_length new_entries_nth retry_one_def
          split: sum.splits)
  from runRequests_failure [of client st err] st assms(4) one many
  show ?thesis by (simp add: new_entries_func)
qed

theorem batch_failure_degradation_witness:
  "requests (createQueryBatcher :: string batcher_state) = [] \<and>
   hTimeout (createQueryBatcher :: string batcher_state) = None \<and>
   [''A'', ''BB''] \<noteq> [] \<and>
   resolved_all failing_client [''A'', ''BB''] = Inl ''combined'' \<and>
   snd (run failing_client (map Submit [''A'', ''BB''] @ [TimerFires]) createQueryBatcher) =
     [\<lparr>snapshot = [\<lparr>func = ''A'', promise = 0\<rparr>, \<lparr>func = ''BB'', promise = 1\<rparr>],
       callbacks = [Resolve 0 1, Reject 1 (ClientError ''alone'')]\<rparr>] \<and>
   snd (run failing_client (map Submit [''A''] @ [TimerFires]) createQueryBatcher) =
     [\<lparr>snapshot = [\<lparr>func = ''A'', promise = 0\<rparr>],
       callbacks = [Reject 0 (ClientError ''combined'')]\<rparr>]"
proof -
  have s: "snd (run failing_client (map Submit [''A''] @ [TimerFires]) createQueryBatcher) =
     [\<lparr>snapshot = [\<lparr>func = ''A'', promise = 0\<rparr>],
       callbacks = [Reject 0 (ClientError ''combined'')]\<rparr>]"
    by code_simp
  have h1: "requests (createQueryBatcher :: string batcher_state) = []"
    by (simp add: createQueryBatcher_def)
  have h2: "hTimeout (createQueryBatcher :: string batcher_state) = None"
    by (simp add: createQueryBatcher_def)
  have h3: "[''A'', ''BB''] \<noteq> []" by simp
  have h4: "resolved_all failing_client [''A'', ''BB''] = Inl ''combined''"
    by (simp add: failing_client_def)
  have e: "[\<lparr>snapshot = new_entries (next_promise (createQueryBatcher :: string batcher_state))
                          [''A'', ''BB''],
             callbacks =
               (if length [''A'', ''BB''] = 1
                then [Reject (next_promise (createQueryBatcher :: string batcher_state))
                        (ClientError ''combined'')]
                else map (\<lambda>i. case resolved_one failing_client ([''A'', ''BB''] ! i) of
                                 Inr result \<Rightarrow>
                                   Resolve (next_promise (createQueryBatcher :: string batcher_state) + i)
                                     result
                               | Inl reqErr \<Rightarrow>
                                   Reject (next_promise (createQueryBatcher :: string batcher_state) + i)
                                     (ClientError reqErr))
                         [0..<length [''A'', ''BB'']])\<rparr>]
           = [\<lparr>snapshot = [\<lparr>func = ''A'', promise = 0\<rparr>, \<lparr>func = ''BB'', promise = 1\<rparr>],
               callbacks = [Resolve 0 1, Reject 1 (ClientError ''alone'')]\<rparr>]"
    by (simp add: createQueryBatcher_def failing_client_def upt_rec)
  from batch_failure_degradation [OF h1 h2 h3 h4] e h1 h2 h3 h4 s
  show ?thesis by simp
qed

lemma request_effect:
  "requests (snd (request f st)) = requests st @ [\<lparr>func = f, promise = next_promise st\<rparr>] \<and>
   next_promise (snd (request f st)) = Suc (next_promise st) \<and>
   hTimeout (snd (request f st)) = Some ()"
  by (cases "hTimeout st") (simp_all add: request_def startTimeout_def Let_def)

lemma timeout_callback_effect:
  "requests (fst (timeout_callback client st)) = [] \<and>
   hTimeout (fst (timeout_callback client st)) = None \<and>
   next_promise (fst (timeout_callback client st)) = next_promise st \<and>
   snapshot (snd (timeout_callback client st)) = requests st"
  by (simp add: timeout_callback_def runRequests_state)

lemma step_invariant:
  assumes "(hTimeout st = None) = (requests st = [])"
  shows "concat (map snapshot (snd (fold (step client) events (st, cs))))
           @ requests (fst (fold (step client) events (st, cs)))
         = concat (map snapshot cs) @ requests st @ new_entries (next_promise st) (submitted events) \<and>
         next_promise (fst (fold (step client) events (st, cs)))
           = next_promise st + length (submitted events) \<and>
         (hTimeout (fst (fold (step client) events (st, cs))) = None)
           = (requests (fst (fold (step client) events (st, cs))) = [])"
  using assms
proof (induction events arbitrary: st cs)
  case Nil
  then show ?case by simp
next
  case (Cons ev events)
  show ?case
  proof (cases ev)
    case (Submit f)
    let ?st1 = "snd (request f st)"
    have inv: "(hTimeout ?st1 = None) = (requests ?st1 = [])"
      by (simp add: request_effect)
    from Cons.IH [OF inv, of cs] Submit show ?thesis
      by (simp add: request_effect)
  next
    case TimerFires
    show ?thesis
    proof (cases "hTimeout st")
      case None
      with Cons.IH [OF Cons.prems, of cs] TimerFires show ?thesis by simp
    next
      case (Some u)
      let ?st1 = "fst (timeout_callback client st)"
      let ?c = "snd (timeout_callback client st)"
      have inv: "(hTimeout ?st1 = None) = (requests ?st1 = [])"
        by (simp add: timeout_callback_effect)
      from Cons.IH [OF inv, of "cs @ [?c]"] TimerFires Some show ?thesis
        by (simp add: timeout_callback_effect split_beta)
    qed
  qed
qed

lemma in_one_list:
  "distinct (concat xss) \<Longrightarrow> x \<in> set (concat xss) \<Longrightarrow>
   length (filter (\<lambda>xs. x \<in> set xs) xss) = 1"
proof (induction xss)
  case Nil
  then show ?case by simp
next
  case (Cons xs xss)
  show ?case
  proof (cases "x \<in> set xs")
    case True
    with Cons.prems have "\<forall>ys \<in> set xss. x \<notin> set ys" by auto
    then have "filter (\<lambda>xs. x \<in> set xs) xss = []" by (simp add: filter_empty_conv)
    with True show ?thesis by simp
  next
    case False
    with Cons show ?thesis by auto
  qed
qed

lemma new_entries_distinct: "distinct (new_entries p fs)"
proof -
  have "distinct (map promise (new_entries p fs))" by (simp add: new_entries_promise)
  then show ?thesis by (rule distinct_map [THEN iffD1, THEN conjunct1])
qed

lemma step_timer:
  assumes "(hTimeout st = None) = (requests st = [])"
  shows "requests (fst (step client TimerFires (st, cs))) = [] \<and>
         hTimeout (fst (step client TimerFires (st, cs))) = None \<and>
         next_promise (fst (step client TimerFires (st, cs))) = next_promise st \<and>
         concat (map snapshot (snd (step client TimerFires (st, cs))))
           = concat (map snapshot cs) @ requests st"
  using assms
  by (cases "hTimeout st") (simp_all add: timeout_callback_effect split_beta)

lemma step_submit:
  "snd (step client (Submit f) (st, cs)) = cs \<and>
   requests (fst (step client (Submit f) (st, cs)))
     = requests st @ [\<lparr>func = f, promise = next_promise st\<rparr>] \<and>
   hTimeout (fst (step client (Submit f) (st, cs))) = Some ()"
  by (simp add: request_effect)

text \<open>
  C6. Cycle isolation and exactly-once membership. After any sequence of submissions and
  timer firings from a new batcher, the snapshots of the cycles, in order, followed by
  the pending queue, are exactly the submitted entries in submission order (none dropped,
  none twice), and the timer is set exactly when the queue is not empty. When the timer
  has fired, the queue is empty and every submitted entry is in the snapshot of exactly
  one cycle. An entry submitted after that is in none of the flushed cycles: the cycles
  are unchanged, the entry is alone in the queue and a new timer is set.
\<close>

theorem cycle_isolation:
  fixes client :: "('f, 'r, 'e) gqless_client" and events :: "'f event list" and f :: 'f
  defines "now \<equiv> run client events createQueryBatcher"
    and "flushed \<equiv> run client (events @ [TimerFires]) createQueryBatcher"
    and "later \<equiv> run client (events @ [TimerFires, Submit f]) createQueryBatcher"
  shows "concat (map snapshot (snd now)) @ requests (fst now) = new_entries 0 (submitted events) \<and>
         (hTimeout (fst now) = None) = (requests (fst now) = []) \<and>
         requests (fst flushed) = [] \<and>
         concat (map snapshot (snd flushed)) = new_entries 0 (submitted events) \<and>
         (e \<in> set (new_entries 0 (submitted events)) \<longrightarrow>
            length (filter (\<lambda>c. e \<in> set (snapshot c)) (snd flushed)) = 1) \<and>
         snd later = snd flushed \<and>
         requests (fst later) = [\<lparr>func = f, promise = length (submitted events)\<rparr>] \<and>
         hTimeout (fst later) = Some () \<and>
         \<lparr>func = f, promise = length (submitted events)\<rparr> \<notin> set (concat (map snapshot (snd later)))"
proof -
  let ?init = "createQueryBatcher :: 'f batcher_state"
  have inv0: "(hTimeout ?init = None) = (requests ?init = [])"
    by (simp add: createQueryBatcher_def)
  have inv: "concat (map snapshot (snd now)) @ requests (fst now)
               = new_entries 0 (submitted events) \<and>
             next_promise (fst now) = length (submitted events) \<and>
             (hTimeout (fst now) = None) = (requests (fst now) = [])"
    using step_invariant [OF inv0, of client events "[]"]
    by (simp add: now_def run_def createQueryBatcher_def)
  have a: "concat (map snapshot (snd now)) @ requests (fst now) = new_entries 0 (submitted events)"
    using inv by simp
  have n: "next_promise (fst now) = length (submitted events)"
    using inv by simp
  have b: "(hTimeout (fst now) = None) = (requests (fst now) = [])"
    using inv by simp
  have fl: "flushed = step client TimerFires (fst now, snd now)"
    by (simp add: flushed_def now_def run_def)
  note t = step_timer [OF b, of client "snd now", folded fl]
  have c: "requests (fst flushed) = []" using t by simp
  have d: "concat (map snapshot (snd flushed)) = new_entries 0 (submitted events)"
    using t a by simp
  have n': "next_promise (fst flushed) = length (submitted events)"
    using t n by simp
  have la: "later = step client (Submit f) (fst flushed, snd flushed)"
    by (simp add: later_def flushed_def run_def)
  note u = step_submit [of client f "fst flushed" "snd flushed", folded la]
  have g: "snd later = snd flushed" using u by simp
  have i: "requests (fst later) = [\<lparr>func = f, promise = length (submitted events)\<rparr>]"
    using u c n' by simp
  have j: "hTimeout (fst later) = Some ()" using u by simp
  have dist: "distinct (concat (map snapshot (snd flushed)))"
    unfolding d by (rule new_entries_distinct)
  have k: "e \<in> set (new_entries 0 (submitted events)) \<longrightarrow>
            length (filter (\<lambda>c. e \<in> set (snapshot c)) (snd flushed)) = 1"
  proof
    assume "e \<in> set (new_entries 0 (submitted events))"
    then have "e \<in> set (concat (map snapshot (snd flushed)))" unfolding d .
    from in_one_list [OF dist this]
    show "length (filter (\<lambda>c. e \<in> set (snapshot c)) (snd flushed)) = 1"
      by (simp add: filter_map comp_def)
  qed
  have "length (submitted events) \<notin> set (map promise (new_entries 0 (submitted events)))"
    by (simp add: new_entries_promise)
  then have "\<lparr>func = f, promise = length (submitted events)\<rparr>
                  \<notin> set (new_entries 0 (submitted events))"
    by force
  then have l: "\<lparr>func = f, promise = length (submitted events)\<rparr>
                  \<notin> set (concat (map snapshot (snd later)))"
    unfolding g d .
  from a b c d k g i j l show ?thesis by (intro conjI)
qed

theorem cycle_isolation_witness:
  "\<lparr>func = ''C'', promise = 2\<rparr>
     \<in> set (new_entries 0 (submitted [Submit ''A'', Submit ''BB'', TimerFires, Submit ''C''])) \<and>
   length (filter (\<lambda>c. \<lparr>func = ''C'', promise = 2\<rparr> \<in> set (snapshot c))
             (snd (run sample_client
                     ([Submit ''A'', Submit ''BB'', TimerFires, Submit ''C''] @ [TimerFires])
                     createQueryBatcher))) = 1 \<and>
   map snapshot
     (snd (run sample_client
             ([Submit ''A'', Submit ''BB'', TimerFires, Submit ''C''] @ [TimerFires])
             createQueryBatcher))
   = [[\<lparr>func = ''A'', promise = 0\<rparr>, \<lparr>func = ''BB'', promise = 1\<rparr>],
      [\<lparr>func = ''C'', promise = 2\<rparr>]]"
proof -
  have h: "\<lparr>func = ''C'', promise = 2\<rparr>
     \<in> set (new_entries 0 (submitted [Submit ''A'', Submit ''BB'', TimerFires, Submit ''C'']))"
    by (simp add: numeral_2_eq_2)
  have e: "map snapshot
     (snd (run sample_client
             ([Submit ''A'', Submit ''BB'', TimerFires, Submit ''C''] @ [TimerFires])
             createQueryBatcher))
   = [[\<lparr>func = ''A'', promise = 0\<rparr>, \<lparr>func = ''BB'', promise = 1\<rparr>],
      [\<lparr>func = ''C'', promise = 2\<rparr>]]"
    by code_simp
  from cycle_isolation [of sample_client "[Submit ''A'', Submit ''BB'', TimerFires, Submit ''C'']"
      "\<lparr>func = ''C'', promise = 2\<rparr>" "''D''"] h
  have "length (filter (\<lambda>c. \<lparr>func = ''C'', promise = 2\<rparr> \<in> set (snapshot c))
             (snd (run sample_client
                     ([Submit ''A'', Submit ''BB'', TimerFires, Submit ''C''] @ [TimerFires])
                     createQueryBatcher))) = 1"
    by blast
  with h e show ?thesis by (intro conjI)
qed

end
